theory Spec2Isabelle
  imports Main "HOL-Library.Word"
begin

unbundle bit_operations_syntax

section \<open>CheckpointStorage: a reference-counted store over a transactional engine\<close>

text \<open>
  A shallow embedding of \<^verbatim>\<open>packages/arb-avm-cpp/avm/src/checkpointstorage.cpp\<close>.
  Every member function of \<^verbatim>\<open>CheckpointStorage\<close> becomes a HOL function of the
  same name that takes the database handle (\<^verbatim>\<open>*txn_db.get()\<close>) and returns the
  handle as the call leaves it. An exception or a failed \<^verbatim>\<open>assert\<close> is the
  left injection of a sum. Names are the source's; the parameter \<^verbatim>\<open>value\<close> is
  written \<open>val\<close>.
\<close>

subsection \<open>Bytes, integers and the platform\<close>

text \<open>
  \<^verbatim>\<open>std::string\<close> and \<^verbatim>\<open>std::vector<unsigned char>\<close> are both sequences of
  bytes; \<^verbatim>\<open>std::string(hash_key.begin(), hash_key.end())\<close> copies them one by one,
  so one type serves for both. \<^verbatim>\<open>int\<close> is 32 bits wide. Signed overflow is
  undefined in C++; the embedding writes out what the two's-complement hardware does,
  which is the wrap-around of \<open>32 word\<close>. Signed comparison reads a word through
  \<open>sint\<close>.
\<close>

type_synonym byte = "8 word"
type_synonym bytes = "byte list"
type_synonym int32 = "32 word"

text \<open>
  Two things the source leaves to the build: the byte order \<^verbatim>\<open>memcpy\<close> sees in an
  \<^verbatim>\<open>int\<close>, and whether \<^verbatim>\<open>NDEBUG\<close> compiles the \<^verbatim>\<open>assert\<close>s away.
\<close>

record platform =
  big_endian :: bool
  ndebug :: bool

text \<open>A little-endian machine, built with and without the assertions.\<close>

definition debug_build :: platform where
  "debug_build = \<lparr>big_endian = False, ndebug = False\<rparr>"

definition release_build :: platform where
  "release_build = \<lparr>big_endian = False, ndebug = True\<rparr>"

datatype crash = AssertionFailed | OutOfRange

text \<open>The four bytes of an \<^verbatim>\<open>int\<close>, least significant first, and their value.\<close>

definition le_bytes :: "int32 \<Rightarrow> bytes" where
  "le_bytes w = [ucast w, ucast (drop_bit 8 w), ucast (drop_bit 16 w), ucast (drop_bit 24 w)]"

fun le_value :: "bytes \<Rightarrow> int32" where
  "le_value [] = 0"
| "le_value (b # bs) = ucast b OR push_bit 8 (le_value bs)"

text \<open>\<^verbatim>\<open>memcpy(tmpbuf.data(), &count, sizeof(count))\<close>: the object representation.\<close>

definition memcpy_from_int :: "platform \<Rightarrow> int32 \<Rightarrow> bytes" where
  "memcpy_from_int pf count = (if big_endian pf then rev (le_bytes count) else le_bytes count)"

text \<open>\<^verbatim>\<open>memcpy(&ref_count, c_string, sizeof(ref_count))\<close>, from the bytes copied.\<close>

definition memcpy_to_int :: "platform \<Rightarrow> bytes \<Rightarrow> int32" where
  "memcpy_to_int pf buf = le_value (if big_endian pf then rev buf else buf)"

text \<open>
  \<^verbatim>\<open>std::string::substr(pos, n)\<close> throws \<^verbatim>\<open>std::out_of_range\<close> when
  \<open>pos\<close> exceeds the size, and otherwise returns at most \<open>n\<close> characters from
  \<open>pos\<close> on.
\<close>

definition substr :: "bytes \<Rightarrow> nat \<Rightarrow> nat \<Rightarrow> crash + bytes" where
  "substr s pos n = (if length s < pos then Inl OutOfRange else Inr (take n (drop pos s)))"

subsection \<open>The record codec\<close>

definition serializeCountAndValue :: "platform \<Rightarrow> int32 \<Rightarrow> bytes \<Rightarrow> bytes" where
  "serializeCountAndValue pf count val =
     (let tmpbuf = memcpy_from_int pf count in tmpbuf @ val)"

text \<open>
  The \<^verbatim>\<open>memcpy\<close> reads \<^verbatim>\<open>sizeof(ref_count)\<close> = 4 bytes from the string's buffer.
  On a non-empty string shorter than 4 bytes what it reads past the end is discarded,
  since \<^verbatim>\<open>substr(4, ...)\<close> throws there.
\<close>

definition parseCountAndValue :: "platform \<Rightarrow> bytes \<Rightarrow> crash + (int32 \<times> bytes)" where
  "parseCountAndValue pf string_value =
     (if string_value = [] then Inr (0, [])
      else
        (let ref_count = memcpy_to_int pf (take 4 string_value) in
         case substr string_value 4 (length string_value - 1) of
           Inl e \<Rightarrow> Inl e
         | Inr saved_value \<Rightarrow> Inr (ref_count, saved_value)))"

subsection \<open>The transactional engine\<close>

text \<open>
  The engine (RocksDB's \<^verbatim>\<open>TransactionDB\<close>) is an external collaborator. The store
  uses five of its calls: \<^verbatim>\<open>Get\<close> on the database, \<^verbatim>\<open>BeginTransaction\<close>, and
  \<^verbatim>\<open>Put\<close>, \<^verbatim>\<open>Delete\<close> and \<^verbatim>\<open>Commit\<close> on a transaction. The model is a
  key-value table of the committed data, a status for each kind of call that the
  engine answers with when it is not \<open>Ok\<close> (a failure of the engine: I/O error,
  corruption, a transaction that cannot commit), and the list of the calls it has
  received, oldest first.
\<close>

datatype Status =
  Ok | NotFound | Corruption | NotSupported | InvalidArgument | IOError
  | TimedOut | Aborted | Busy

definition ok :: "Status \<Rightarrow> bool" where
  "ok s = (s = Ok)"

datatype call =
  CallGet bytes
  | CallBeginTransaction
  | CallPut bytes bytes
  | CallDelete bytes
  | CallCommit

record TransactionDB =
  kv :: "bytes \<rightharpoonup> bytes"
  get_fault :: Status
  put_fault :: Status
  delete_fault :: Status
  commit_fault :: Status
  calls :: "call list"

text \<open>A transaction is the batch of writes it has buffered; commit applies them in order.\<close>

datatype txn_write = WritePut bytes bytes | WriteDelete bytes

type_synonym Transaction = "txn_write list"

fun apply_write :: "(bytes \<rightharpoonup> bytes) \<Rightarrow> txn_write \<Rightarrow> (bytes \<rightharpoonup> bytes)" where
  "apply_write m (WritePut k v) = m(k \<mapsto> v)"
| "apply_write m (WriteDelete k) = m(k := None)"

definition received :: "TransactionDB \<Rightarrow> call \<Rightarrow> TransactionDB" where
  "received db c = db\<lparr>calls := calls db @ [c]\<rparr>"

text \<open>\<^verbatim>\<open>db->Get(read_options, key, &value)\<close>: the status, and the value when found.\<close>

definition db_Get :: "TransactionDB \<Rightarrow> bytes \<Rightarrow> Status \<times> bytes \<times> TransactionDB" where
  "db_Get db key =
     (let db1 = received db (CallGet key) in
      if get_fault db \<noteq> Ok then (get_fault db, [], db1)
      else case kv db key of
             None \<Rightarrow> (NotFound, [], db1)
           | Some v \<Rightarrow> (Ok, v, db1))"

definition db_BeginTransaction :: "TransactionDB \<Rightarrow> Transaction \<times> TransactionDB" where
  "db_BeginTransaction db = ([], received db CallBeginTransaction)"

definition txn_Put ::
  "TransactionDB \<Rightarrow> Transaction \<Rightarrow> bytes \<Rightarrow> bytes \<Rightarrow> Status \<times> Transaction \<times> TransactionDB" where
  "txn_Put db txn key v =
     (let db1 = received db (CallPut key v) in
      if put_fault db \<noteq> Ok then (put_fault db, txn, db1)
      else (Ok, txn @ [WritePut key v], db1))"

definition txn_Delete ::
  "TransactionDB \<Rightarrow> Transaction \<Rightarrow> bytes \<Rightarrow> Status \<times> Transaction \<times> TransactionDB" where
  "txn_Delete db txn key =
     (let db1 = received db (CallDelete key) in
      if delete_fault db \<noteq> Ok then (delete_fault db, txn, db1)
      else (Ok, txn @ [WriteDelete key], db1))"

definition txn_Commit :: "TransactionDB \<Rightarrow> Transaction \<Rightarrow> Status \<times> TransactionDB" where
  "txn_Commit db txn =
     (let db1 = received db CallCommit in
      if commit_fault db \<noteq> Ok then (commit_fault db, db1)
      else (Ok, db1\<lparr>kv := foldl apply_write (kv db1) txn\<rparr>))"

text \<open>An engine none of whose calls fails, and a database just created.\<close>

definition healthy :: "TransactionDB \<Rightarrow> bool" where
  "healthy db =
     (get_fault db = Ok \<and> put_fault db = Ok \<and> delete_fault db = Ok \<and> commit_fault db = Ok)"

definition created_db :: "(bytes \<rightharpoonup> bytes) \<Rightarrow> TransactionDB" where
  "created_db m =
     \<lparr>kv = m, get_fault = Ok, put_fault = Ok, delete_fault = Ok, commit_fault = Ok, calls = []\<rparr>"

text \<open>
  The database after a transaction that holds one put, or one delete, has begun, taken
  its write and committed.
\<close>

definition after_put :: "TransactionDB \<Rightarrow> bytes \<Rightarrow> bytes \<Rightarrow> TransactionDB" where
  "after_put db key entry =
     db\<lparr>kv := (kv db)(key \<mapsto> entry),
        calls := calls db @ [CallBeginTransaction, CallPut key entry, CallCommit]\<rparr>"

definition after_delete :: "TransactionDB \<Rightarrow> bytes \<Rightarrow> TransactionDB" where
  "after_delete db key =
     db\<lparr>kv := (kv db)(key := None),
        calls := calls db @ [CallBeginTransaction, CallDelete key, CallCommit]\<rparr>"

subsection \<open>Result structures\<close>

text \<open>
  Modelled from the spec: the header \<^verbatim>\<open>avm/checkpointstorage.hpp\<close> that declares
  \<^verbatim>\<open>GetResults\<close>, \<^verbatim>\<open>SaveResults\<close> and \<^verbatim>\<open>DeleteResults\<close> is not among the
  sources. Their fields are taken, in order, from the aggregate initialisers and the
  member accesses of the source file: a reference count, a status, and the stored
  value (Get) or the key (Save).
\<close>

datatype GetResults =
  GetResults (reference_count_of: int32) (status_of: Status) (stored_value_of: bytes)

datatype SaveResults =
  SaveResults (save_count_of: int32) (save_status_of: Status) (save_key_of: bytes)

datatype DeleteResults =
  DeleteResults (delete_count_of: int32) (delete_status_of: Status)

subsection \<open>Private member functions\<close>

definition getTransaction :: "TransactionDB \<Rightarrow> Transaction \<times> TransactionDB" where
  "getTransaction db = db_BeginTransaction db"

text \<open>
  A failed \<^verbatim>\<open>assert\<close> aborts the process unless \<^verbatim>\<open>NDEBUG\<close> is defined.
  \<^verbatim>\<open>BeginTransaction\<close> always hands out a transaction, so \<^verbatim>\<open>assert(transaction)\<close>
  never fails.
\<close>

definition saveValueToDb ::
  "platform \<Rightarrow> TransactionDB \<Rightarrow> bytes \<Rightarrow> bytes \<Rightarrow> crash + (Status \<times> TransactionDB)" where
  "saveValueToDb pf db val key =
     (case getTransaction db of (transaction, db1) \<Rightarrow>
      case txn_Put db1 transaction key val of (put_status, transaction1, db2) \<Rightarrow>
        if \<not> ndebug pf \<and> \<not> ok put_status then Inl AssertionFailed
        else
          (case txn_Commit db2 transaction1 of (commit_status, db3) \<Rightarrow>
             if \<not> ndebug pf \<and> \<not> ok commit_status then Inl AssertionFailed
             else Inr (commit_status, db3)))"

definition deleteValueFromDb ::
  "platform \<Rightarrow> TransactionDB \<Rightarrow> bytes \<Rightarrow> crash + (Status \<times> TransactionDB)" where
  "deleteValueFromDb pf db key =
     (case getTransaction db of (transaction, db1) \<Rightarrow>
      case txn_Delete db1 transaction key of (delete_status, transaction1, db2) \<Rightarrow>
        if \<not> ndebug pf \<and> \<not> ok delete_status then Inl AssertionFailed
        else
          (case txn_Commit db2 transaction1 of (commit_status, db3) \<Rightarrow>
             if \<not> ndebug pf \<and> \<not> ok commit_status then Inl AssertionFailed
             else Inr (commit_status, db3)))"

definition saveValueWithRefCount ::
  "platform \<Rightarrow> TransactionDB \<Rightarrow> int32 \<Rightarrow> bytes \<Rightarrow> bytes \<Rightarrow> crash + (SaveResults \<times> TransactionDB)" where
  "saveValueWithRefCount pf db updated_ref_count hash_key val =
     (let updated_entry = serializeCountAndValue pf updated_ref_count val;
          key_str = hash_key
      in case saveValueToDb pf db updated_entry key_str of
           Inl e \<Rightarrow> Inl e
         | Inr (status, db1) \<Rightarrow>
             if ok status then Inr (SaveResults updated_ref_count status hash_key, db1)
             else Inr (SaveResults 0 NotFound hash_key, db1))"

subsection \<open>Public member functions\<close>

definition getStoredValue ::
  "platform \<Rightarrow> TransactionDB \<Rightarrow> bytes \<Rightarrow> crash + (GetResults \<times> TransactionDB)" where
  "getStoredValue pf db hash_key =
     (let key_str = hash_key
      in case db_Get db key_str of (get_status, return_value, db1) \<Rightarrow>
           if ok get_status then
             (case parseCountAndValue pf return_value of
                Inl e \<Rightarrow> Inl e
              | Inr tuple \<Rightarrow> Inr (GetResults (fst tuple) get_status (snd tuple), db1))
           else
             (let unsuccessful = NotFound
              in Inr (GetResults 0 unsuccessful [], db1)))"

definition incrementReference ::
  "platform \<Rightarrow> TransactionDB \<Rightarrow> bytes \<Rightarrow> crash + (SaveResults \<times> TransactionDB)" where
  "incrementReference pf db hash_key =
     (case getStoredValue pf db hash_key of
        Inl e \<Rightarrow> Inl e
      | Inr (results, db1) \<Rightarrow>
          if ok (status_of results) then
            (let updated_count = reference_count_of results + 1
             in saveValueWithRefCount pf db1 updated_count hash_key (stored_value_of results))
          else Inr (SaveResults 0 (status_of results) hash_key, db1))"

definition saveValue ::
  "platform \<Rightarrow> TransactionDB \<Rightarrow> bytes \<Rightarrow> bytes \<Rightarrow> crash + (SaveResults \<times> TransactionDB)" where
  "saveValue pf db val hash_key =
     (case getStoredValue pf db hash_key of
        Inl e \<Rightarrow> Inl e
      | Inr (results, db1) \<Rightarrow>
          if ok (status_of results) then
            (if stored_value_of results \<noteq> val
             then Inr (SaveResults (- 1) InvalidArgument hash_key, db1)
             else saveValueWithRefCount pf db1 (reference_count_of results + 1) hash_key val)
          else saveValueWithRefCount pf db1 1 hash_key val)"

definition deleteStoredValue ::
  "platform \<Rightarrow> TransactionDB \<Rightarrow> bytes \<Rightarrow> crash + (DeleteResults \<times> TransactionDB)" where
  "deleteStoredValue pf db hash_key =
     (case getStoredValue pf db hash_key of
        Inl e \<Rightarrow> Inl e
      | Inr (results, db1) \<Rightarrow>
          if ok (status_of results) then
            (let val = stored_value_of results
             in if sint (reference_count_of results) < 2 then
                  (case deleteValueFromDb pf db1 hash_key of
                     Inl e \<Rightarrow> Inl e
                   | Inr (delete_status, db2) \<Rightarrow> Inr (DeleteResults 0 delete_status, db2))
                else
                  (let updated_ref_count = reference_count_of results - 1
                   in case saveValueWithRefCount pf db1 updated_ref_count hash_key val of
                        Inl e \<Rightarrow> Inl e
                      | Inr (update_result, db2) \<Rightarrow>
                          Inr (DeleteResults updated_ref_count (save_status_of update_result), db2)))
          else Inr (DeleteResults 0 NotFound, db1))"

subsection \<open>Construction and destruction\<close>

text \<open>
  The file system holds the databases, one per path. \<^verbatim>\<open>TransactionDB::Open\<close> with
  \<^verbatim>\<open>create_if_missing\<close> opens the database at the path and creates an empty one
  when there is none (the constructor drops the status it returns); \<^verbatim>\<open>Close\<close>
  leaves the committed table on disk; \<^verbatim>\<open>DestroyDB\<close> removes the database at a
  path with everything in it.
\<close>

type_synonym disk = "string \<rightharpoonup> (bytes \<rightharpoonup> bytes)"

record CheckpointStorage =
  txn_db :: TransactionDB
  txn_db_path :: string

definition TransactionDB_Open :: "disk \<Rightarrow> string \<Rightarrow> TransactionDB \<times> disk" where
  "TransactionDB_Open d path =
     (case d path of
        None \<Rightarrow> (created_db Map.empty, d(path \<mapsto> Map.empty))
      | Some m \<Rightarrow> (created_db m, d))"

definition TransactionDB_Close :: "disk \<Rightarrow> string \<Rightarrow> TransactionDB \<Rightarrow> disk" where
  "TransactionDB_Close d path db = d(path \<mapsto> kv db)"

definition DestroyDB :: "disk \<Rightarrow> string \<Rightarrow> disk" where
  "DestroyDB d path = d(path := None)"

definition CheckpointStorage_ctor :: "disk \<Rightarrow> string \<Rightarrow> CheckpointStorage \<times> disk" where
  "CheckpointStorage_ctor d db_path =
     (case TransactionDB_Open d db_path of
        (db, d1) \<Rightarrow> (\<lparr>txn_db = db, txn_db_path = db_path\<rparr>, d1))"

definition CheckpointStorage_dtor :: "disk \<Rightarrow> CheckpointStorage \<Rightarrow> disk" where
  "CheckpointStorage_dtor d this =
     (let d1 = TransactionDB_Close d (txn_db_path this) (txn_db this)
      in DestroyDB d1 (txn_db_path this))"

subsection \<open>Callers\<close>

text \<open>
  The three mutating calls as data, so that a sequence of them can be run from a given
  database. A run stops at the first call that does not return.
\<close>

datatype operation =
  Save bytes bytes
  | IncrementReference bytes
  | Delete bytes

fun key_of :: "operation \<Rightarrow> bytes" where
  "key_of (Save hash_key val) = hash_key"
| "key_of (IncrementReference hash_key) = hash_key"
| "key_of (Delete hash_key) = hash_key"

fun perform ::
  "platform \<Rightarrow> TransactionDB \<Rightarrow> operation \<Rightarrow> crash + ((int32 \<times> Status) \<times> TransactionDB)" where
  "perform pf db (Save hash_key val) =
     (case saveValue pf db val hash_key of
        Inl e \<Rightarrow> Inl e
      | Inr (r, db1) \<Rightarrow> Inr ((save_count_of r, save_status_of r), db1))"
| "perform pf db (IncrementReference hash_key) =
     (case incrementReference pf db hash_key of
        Inl e \<Rightarrow> Inl e
      | Inr (r, db1) \<Rightarrow> Inr ((save_count_of r, save_status_of r), db1))"
| "perform pf db (Delete hash_key) =
     (case deleteStoredValue pf db hash_key of
        Inl e \<Rightarrow> Inl e
      | Inr (r, db1) \<Rightarrow> Inr ((delete_count_of r, delete_status_of r), db1))"

fun run :: "platform \<Rightarrow> TransactionDB \<Rightarrow> operation list \<Rightarrow> crash + TransactionDB" where
  "run pf db [] = Inr db"
| "run pf db (op # ops) =
     (case perform pf db op of
        Inl e \<Rightarrow> Inl e
      | Inr (r, db1) \<Rightarrow> run pf db1 ops)"

subsection \<open>Properties the specification names\<close>

text \<open>
  The reference count of a stored record is the one \<^verbatim>\<open>parseCountAndValue\<close> reads
  from it. The invariant of the specification: every record that is present has a
  count of at least 1.
\<close>

definition record_ok :: "platform \<Rightarrow> bytes option \<Rightarrow> bool" where
  "record_ok pf entry =
     (case entry of
        None \<Rightarrow> True
      | Some bs \<Rightarrow>
          (case parseCountAndValue pf bs of
             Inl e \<Rightarrow> False
           | Inr (count, val) \<Rightarrow> 1 \<le> sint count))"

definition refcount_invariant :: "platform \<Rightarrow> TransactionDB \<Rightarrow> bool" where
  "refcount_invariant pf db = (\<forall>k. record_ok pf (kv db k))"

text \<open>The same with a bound on the counts, for induction over a run.\<close>

definition counts_within :: "platform \<Rightarrow> int \<Rightarrow> TransactionDB \<Rightarrow> bool" where
  "counts_within pf n db =
     (\<forall>k. case kv db k of
            None \<Rightarrow> True
          | Some bs \<Rightarrow>
              (case parseCountAndValue pf bs of
                 Inl e \<Rightarrow> False
               | Inr (count, val) \<Rightarrow> 1 \<le> sint count \<and> sint count \<le> n))"

text \<open>
  The calls the engine received between two states of the database, and what it is
  for them to form one unit of work: they open with \<^verbatim>\<open>BeginTransaction\<close>, close
  with \<^verbatim>\<open>Commit\<close>, and no transaction begins or commits in between.
\<close>

definition calls_during :: "TransactionDB \<Rightarrow> TransactionDB \<Rightarrow> call list" where
  "calls_during db db1 = drop (length (calls db)) (calls db1)"

fun inside_one_transaction :: "call list \<Rightarrow> bool" where
  "inside_one_transaction (CallBeginTransaction # cs) =
     (cs \<noteq> [] \<and> last cs = CallCommit
      \<and> CallBeginTransaction \<notin> set cs \<and> CallCommit \<notin> set (butlast cs))"
| "inside_one_transaction cs = False"

section \<open>The record codec\<close>

lemma le_value_le_bytes: "le_value (le_bytes w) = w"
proof (rule bit_word_eqI)
  fix n assume "n < LENGTH(32)"
  then have "n < 8 \<or> (8 \<le> n \<and> n < 16) \<or> (16 \<le> n \<and> n < 24) \<or> (24 \<le> n \<and> n < 32)"
    by auto
  then show "bit (le_value (le_bytes w)) n = bit w n"
    by (auto simp add: le_bytes_def bit_simps)
qed

lemma length_memcpy_from_int: "length (memcpy_from_int pf count) = 4"
  by (simp add: memcpy_from_int_def le_bytes_def)

lemma memcpy_to_from_int: "memcpy_to_int pf (memcpy_from_int pf count) = count"
  by (simp add: memcpy_to_int_def memcpy_from_int_def le_value_le_bytes)

lemma parse_serialize:
  "parseCountAndValue pf (serializeCountAndValue pf count val) = Inr (count, val)"
proof -
  define header where "header = memcpy_from_int pf count"
  have len: "length header = 4"
    unfolding header_def by (rule length_memcpy_from_int)
  have value_of: "memcpy_to_int pf header = count"
    unfolding header_def by (rule memcpy_to_from_int)
  have nonempty: "header @ val \<noteq> []"
    using len by auto
  have front: "take 4 (header @ val) = header"
    using len by simp
  have rest: "substr (header @ val) 4 (length (header @ val) - 1) = Inr val"
    using len by (simp add: substr_def)
  have "parseCountAndValue pf (header @ val) = Inr (count, val)"
    unfolding parseCountAndValue_def Let_def front rest value_of
    using nonempty by auto
  then show ?thesis
    by (simp add: serializeCountAndValue_def header_def)
qed

text \<open>
  C8. A record is serialized as the four bytes of the reference count followed at once
  by the bytes of the value, with nothing between them and no length written: the
  serialization is four bytes longer than the value, its first four bytes are the
  count's and the rest is the value. Parsing inverts it for every count and every
  value, the empty value included.
\<close>

theorem codec_layout_and_roundtrip:
  "length (serializeCountAndValue pf count val) = 4 + length val
   \<and> take 4 (serializeCountAndValue pf count val) = memcpy_from_int pf count
   \<and> memcpy_to_int pf (take 4 (serializeCountAndValue pf count val)) = count
   \<and> drop 4 (serializeCountAndValue pf count val) = val
   \<and> parseCountAndValue pf (serializeCountAndValue pf count val) = Inr (count, val)
   \<and> parseCountAndValue pf (serializeCountAndValue pf count []) = Inr (count, [])"
  by (simp add: parse_serialize)
    (simp add: serializeCountAndValue_def length_memcpy_from_int memcpy_to_from_int)

section \<open>The engine calls and the private functions\<close>

lemma kv_received [simp]: "kv (received db c) = kv db"
  and get_fault_received [simp]: "get_fault (received db c) = get_fault db"
  and put_fault_received [simp]: "put_fault (received db c) = put_fault db"
  and delete_fault_received [simp]: "delete_fault (received db c) = delete_fault db"
  and commit_fault_received [simp]: "commit_fault (received db c) = commit_fault db"
  and calls_received [simp]: "calls (received db c) = calls db @ [c]"
  by (simp_all add: received_def)

lemma kv_after_put [simp]: "kv (after_put db k e) = (kv db)(k \<mapsto> e)"
  and get_fault_after_put [simp]: "get_fault (after_put db k e) = get_fault db"
  and put_fault_after_put [simp]: "put_fault (after_put db k e) = put_fault db"
  and delete_fault_after_put [simp]: "delete_fault (after_put db k e) = delete_fault db"
  and commit_fault_after_put [simp]: "commit_fault (after_put db k e) = commit_fault db"
  and calls_after_put [simp]:
    "calls (after_put db k e) = calls db @ [CallBeginTransaction, CallPut k e, CallCommit]"
  by (simp_all add: after_put_def)

lemma kv_after_delete [simp]: "kv (after_delete db k) = (kv db)(k := None)"
  and get_fault_after_delete [simp]: "get_fault (after_delete db k) = get_fault db"
  and put_fault_after_delete [simp]: "put_fault (after_delete db k) = put_fault db"
  and delete_fault_after_delete [simp]: "delete_fault (after_delete db k) = delete_fault db"
  and commit_fault_after_delete [simp]: "commit_fault (after_delete db k) = commit_fault db"
  and calls_after_delete [simp]:
    "calls (after_delete db k) = calls db @ [CallBeginTransaction, CallDelete k, CallCommit]"
  by (simp_all add: after_delete_def)

lemma healthy_created_db: "healthy (created_db m)"
  by (simp add: healthy_def created_db_def)

lemma healthy_faults:
  assumes "healthy db"
  shows "get_fault db = Ok" and "put_fault db = Ok" and "delete_fault db = Ok" and "commit_fault db = Ok"
  using assms by (simp_all add: healthy_def)

lemma saveValueToDb_ok:
  "put_fault db = Ok \<Longrightarrow> commit_fault db = Ok \<Longrightarrow>
   saveValueToDb pf db e k = Inr (Ok, after_put db k e)"
  by (simp add: saveValueToDb_def getTransaction_def db_BeginTransaction_def txn_Put_def
      txn_Commit_def received_def after_put_def ok_def Let_def)

lemma deleteValueFromDb_ok:
  "delete_fault db = Ok \<Longrightarrow> commit_fault db = Ok \<Longrightarrow>
   deleteValueFromDb pf db k = Inr (Ok, after_delete db k)"
  by (simp add: deleteValueFromDb_def getTransaction_def db_BeginTransaction_def txn_Delete_def
      txn_Commit_def received_def after_delete_def ok_def Let_def)

lemma saveValueWithRefCount_ok:
  "put_fault db = Ok \<Longrightarrow> commit_fault db = Ok \<Longrightarrow>
   saveValueWithRefCount pf db c k v =
     Inr (SaveResults c Ok k, after_put db k (serializeCountAndValue pf c v))"
  by (simp add: saveValueWithRefCount_def saveValueToDb_ok ok_def Let_def)

text \<open>What a call that returns has done to the database, whatever the engine's faults.\<close>

lemma saveValueToDb_Inr:
  assumes "saveValueToDb pf db e k = Inr (st, db1)"
  shows "calls db1 = calls db @ [CallBeginTransaction, CallPut k e, CallCommit]
    \<and> get_fault db1 = get_fault db \<and> put_fault db1 = put_fault db
    \<and> delete_fault db1 = delete_fault db \<and> commit_fault db1 = commit_fault db
    \<and> (kv db1 = kv db \<or> kv db1 = (kv db)(k \<mapsto> e))"
  using assms
  by (auto simp add: saveValueToDb_def getTransaction_def db_BeginTransaction_def txn_Put_def
      txn_Commit_def received_def ok_def Let_def split: if_splits)

lemma deleteValueFromDb_Inr:
  assumes "deleteValueFromDb pf db k = Inr (st, db1)"
  shows "calls db1 = calls db @ [CallBeginTransaction, CallDelete k, CallCommit]
    \<and> get_fault db1 = get_fault db \<and> put_fault db1 = put_fault db
    \<and> delete_fault db1 = delete_fault db \<and> commit_fault db1 = commit_fault db
    \<and> (kv db1 = kv db \<or> kv db1 = (kv db)(k := None))"
  using assms
  by (auto simp add: deleteValueFromDb_def getTransaction_def db_BeginTransaction_def txn_Delete_def
      txn_Commit_def received_def ok_def Let_def split: if_splits)

lemma saveValueWithRefCount_Inr:
  assumes "saveValueWithRefCount pf db c k v = Inr (r, db1)"
  shows "calls db1 = calls db @ [CallBeginTransaction, CallPut k (serializeCountAndValue pf c v), CallCommit]
    \<and> get_fault db1 = get_fault db \<and> put_fault db1 = put_fault db
    \<and> delete_fault db1 = delete_fault db \<and> commit_fault db1 = commit_fault db
    \<and> (kv db1 = kv db \<or> kv db1 = (kv db)(k \<mapsto> serializeCountAndValue pf c v))"
  using assms
  by (auto simp add: saveValueWithRefCount_def Let_def split: sum.splits if_splits
      dest!: saveValueToDb_Inr)

section \<open>The lookup\<close>

lemma getStoredValue_absent:
  "kv db k = None \<Longrightarrow>
   getStoredValue pf db k = Inr (GetResults 0 NotFound [], received db (CallGet k))"
  by (simp add: getStoredValue_def db_Get_def ok_def Let_def)

lemma getStoredValue_fault:
  "get_fault db \<noteq> Ok \<Longrightarrow>
   getStoredValue pf db k = Inr (GetResults 0 NotFound [], received db (CallGet k))"
  by (simp add: getStoredValue_def db_Get_def ok_def Let_def)

lemma getStoredValue_present:
  "get_fault db = Ok \<Longrightarrow> kv db k = Some bs \<Longrightarrow> parseCountAndValue pf bs = Inr (c, v) \<Longrightarrow>
   getStoredValue pf db k = Inr (GetResults c Ok v, received db (CallGet k))"
  by (simp add: getStoredValue_def db_Get_def ok_def Let_def)

lemma getStoredValue_serialized:
  "get_fault db = Ok \<Longrightarrow> kv db k = Some (serializeCountAndValue pf c v) \<Longrightarrow>
   getStoredValue pf db k = Inr (GetResults c Ok v, received db (CallGet k))"
  by (erule getStoredValue_present, assumption) (rule parse_serialize)

lemma getStoredValue_Inr:
  assumes "getStoredValue pf db k = Inr (r, db1)"
  shows "db1 = received db (CallGet k)
    \<and> ((r = GetResults 0 NotFound [] \<and> (get_fault db \<noteq> Ok \<or> kv db k = None))
       \<or> (get_fault db = Ok \<and> status_of r = Ok
           \<and> (\<exists>bs. kv db k = Some bs
                 \<and> parseCountAndValue pf bs = Inr (reference_count_of r, stored_value_of r))))"
  using assms
  by (auto simp add: getStoredValue_def db_Get_def ok_def Let_def
      split: if_splits option.splits sum.splits)

lemma getStoredValue_found:
  assumes "getStoredValue pf db k = Inr (GetResults c Ok v, db1)"
  shows "db1 = received db (CallGet k)" and "get_fault db = Ok"
    and "\<exists>bs. kv db k = Some bs \<and> parseCountAndValue pf bs = Inr (c, v)"
  using getStoredValue_Inr [OF assms] by auto

lemma getStoredValue_same_table:
  assumes "getStoredValue pf db k = Inr (r, db1)"
    and "kv db2 k = kv db k" and "get_fault db2 = get_fault db"
  shows "getStoredValue pf db2 k = Inr (r, received db2 (CallGet k))"
  using assms
  by (auto simp add: getStoredValue_def db_Get_def ok_def Let_def
      split: if_splits option.splits sum.splits)

section \<open>The three mutating calls, case by case\<close>

lemma saveValue_new:
  assumes "kv db k = None" and "put_fault db = Ok" and "commit_fault db = Ok"
  shows "saveValue pf db val k =
    Inr (SaveResults 1 Ok k, after_put (received db (CallGet k)) k (serializeCountAndValue pf 1 val))"
  using assms
  by (simp add: saveValue_def getStoredValue_absent saveValueWithRefCount_ok ok_def)

lemma saveValue_same:
  assumes "getStoredValue pf db k = Inr (GetResults c Ok val, db0)"
    and "put_fault db = Ok" and "commit_fault db = Ok"
  shows "saveValue pf db val k =
    Inr (SaveResults (c + 1) Ok k,
         after_put (received db (CallGet k)) k (serializeCountAndValue pf (c + 1) val))"
  using assms getStoredValue_found(1) [OF assms(1)]
  by (simp add: saveValue_def saveValueWithRefCount_ok ok_def)

lemma saveValue_mismatch:
  assumes "getStoredValue pf db k = Inr (GetResults c Ok stored, db0)" and "val \<noteq> stored"
  shows "saveValue pf db val k = Inr (SaveResults (- 1) InvalidArgument k, received db (CallGet k))"
  using assms getStoredValue_found(1) [OF assms(1)]
  by (simp add: saveValue_def ok_def)

lemma incrementReference_absent:
  assumes "kv db k = None"
  shows "incrementReference pf db k = Inr (SaveResults 0 NotFound k, received db (CallGet k))"
  using assms by (simp add: incrementReference_def getStoredValue_absent ok_def)

lemma incrementReference_present:
  assumes "getStoredValue pf db k = Inr (GetResults c Ok v, db0)"
    and "put_fault db = Ok" and "commit_fault db = Ok"
  shows "incrementReference pf db k =
    Inr (SaveResults (c + 1) Ok k,
         after_put (received db (CallGet k)) k (serializeCountAndValue pf (c + 1) v))"
  using assms getStoredValue_found(1) [OF assms(1)]
  by (simp add: incrementReference_def saveValueWithRefCount_ok ok_def)

lemma deleteStoredValue_absent:
  assumes "kv db k = None"
  shows "deleteStoredValue pf db k = Inr (DeleteResults 0 NotFound, received db (CallGet k))"
  using assms by (simp add: deleteStoredValue_def getStoredValue_absent ok_def)

lemma deleteStoredValue_last:
  assumes "getStoredValue pf db k = Inr (GetResults c Ok v, db0)" and "sint c < 2"
    and "delete_fault db = Ok" and "commit_fault db = Ok"
  shows "deleteStoredValue pf db k =
    Inr (DeleteResults 0 Ok, after_delete (received db (CallGet k)) k)"
  using assms getStoredValue_found(1) [OF assms(1)]
  by (simp add: deleteStoredValue_def deleteValueFromDb_ok ok_def)

lemma deleteStoredValue_decrement:
  assumes "getStoredValue pf db k = Inr (GetResults c Ok v, db0)" and "2 \<le> sint c"
    and "put_fault db = Ok" and "commit_fault db = Ok"
  shows "deleteStoredValue pf db k =
    Inr (DeleteResults (c - 1) Ok,
         after_put (received db (CallGet k)) k (serializeCountAndValue pf (c - 1) v))"
  using assms getStoredValue_found(1) [OF assms(1)]
  by (simp add: deleteStoredValue_def saveValueWithRefCount_ok ok_def Let_def)

lemma sint_decrement:
  fixes count :: int32
  assumes "2 \<le> sint count"
  shows "sint (count - 1) = sint count - 1"
proof -
  have "sint count < 2 ^ 31" using sint_lt [of count] by simp
  with assms show ?thesis
    by (simp add: sint_word_ariths signed_take_bit_int_eq_self)
qed

text \<open>A little-endian record, as the stores of the examples hold it.\<close>

lemma lookup_little_endian:
  assumes "\<not> big_endian pf" and "get_fault db = Ok" and "kv db k = Some (le_bytes c @ v)"
  shows "getStoredValue pf db k = Inr (GetResults c Ok v, received db (CallGet k))"
proof -
  have "le_bytes c @ v = serializeCountAndValue pf c v"
    using assms(1) by (simp add: serializeCountAndValue_def memcpy_from_int_def)
  with assms(2,3) show ?thesis
    by (intro getStoredValue_serialized) simp_all
qed

lemma lookup_example:
  "getStoredValue debug_build (created_db [k \<mapsto> le_bytes c @ v]) k
     = Inr (GetResults c Ok v, received (created_db [k \<mapsto> le_bytes c @ v]) (CallGet k))"
  by (rule lookup_little_endian) (simp_all add: created_db_def debug_build_def)

section \<open>Saving a value\<close>

text \<open>
  C4. On an engine whose calls do not fail, when the key has no record, saving a value
  under it returns status Ok and reference count 1, and a lookup of the key right
  after returns exactly that value with reference count 1.
\<close>

theorem save_then_get_round_trip:
  assumes "healthy db" and "kv db hash_key = None"
  shows "\<exists>db1 db2. saveValue pf db val hash_key = Inr (SaveResults 1 Ok hash_key, db1)
           \<and> getStoredValue pf db1 hash_key = Inr (GetResults 1 Ok val, db2)"
proof -
  define db1 where
    "db1 = after_put (received db (CallGet hash_key)) hash_key (serializeCountAndValue pf 1 val)"
  have "saveValue pf db val hash_key = Inr (SaveResults 1 Ok hash_key, db1)"
    unfolding db1_def using assms(2) healthy_faults(2,4) [OF assms(1)] by (rule saveValue_new)
  moreover have "getStoredValue pf db1 hash_key
      = Inr (GetResults 1 Ok val, received db1 (CallGet hash_key))"
    by (rule getStoredValue_serialized) (simp_all add: db1_def healthy_faults [OF assms(1)])
  ultimately show ?thesis by blast
qed

theorem save_then_get_round_trip_witness:
  "healthy (created_db Map.empty) \<and> kv (created_db Map.empty) [1, 2] = None
   \<and> (\<exists>db1 db2. saveValue debug_build (created_db Map.empty) [7, 8, 9] [1, 2]
                     = Inr (SaveResults 1 Ok [1, 2], db1)
        \<and> getStoredValue debug_build db1 [1, 2] = Inr (GetResults 1 Ok [7, 8, 9], db2))"
  using save_then_get_round_trip [of "created_db Map.empty" "[1, 2]" debug_build "[7, 8, 9]"]
  by (simp add: healthy_def created_db_def)

text \<open>
  C5. When the key has a record (a lookup returns its value and count with status Ok)
  and the value offered differs from the stored one, saving returns status
  InvalidArgument and writes nothing: the table is the one before the call, and a
  lookup afterwards still returns the stored value and the count it had.
\<close>

theorem save_mismatch_rejected:
  assumes "getStoredValue pf db hash_key = Inr (GetResults count Ok stored, db0)"
    and "val \<noteq> stored"
  shows "\<exists>db1 db2. saveValue pf db val hash_key = Inr (SaveResults (- 1) InvalidArgument hash_key, db1)
           \<and> kv db1 = kv db
           \<and> getStoredValue pf db1 hash_key = Inr (GetResults count Ok stored, db2)"
proof -
  define db1 where "db1 = received db (CallGet hash_key)"
  have "saveValue pf db val hash_key = Inr (SaveResults (- 1) InvalidArgument hash_key, db1)"
    unfolding db1_def using assms by (rule saveValue_mismatch)
  moreover have "kv db1 = kv db"
    by (simp add: db1_def)
  moreover have "getStoredValue pf db1 hash_key
      = Inr (GetResults count Ok stored, received db1 (CallGet hash_key))"
    by (rule getStoredValue_same_table [OF assms(1)]) (simp_all add: db1_def)
  ultimately show ?thesis by blast
qed

theorem save_mismatch_rejected_witness:
  "getStoredValue debug_build (created_db [[1, 2] \<mapsto> [3, 0, 0, 0, 7, 8]]) [1, 2]
     = Inr (GetResults 3 Ok [7, 8], received (created_db [[1, 2] \<mapsto> [3, 0, 0, 0, 7, 8]]) (CallGet [1, 2]))
   \<and> [7, 9] \<noteq> [7, 8 :: byte]
   \<and> (\<exists>db1 db2. saveValue debug_build (created_db [[1, 2] \<mapsto> [3, 0, 0, 0, 7, 8]]) [7, 9] [1, 2]
                    = Inr (SaveResults (- 1) InvalidArgument [1, 2], db1)
        \<and> kv db1 = kv (created_db [[1, 2] \<mapsto> [3, 0, 0, 0, 7, 8]])
        \<and> getStoredValue debug_build db1 [1, 2] = Inr (GetResults 3 Ok [7, 8], db2))"
proof -
  have lookup: "getStoredValue debug_build (created_db [[1, 2] \<mapsto> [3, 0, 0, 0, 7, 8]]) [1, 2]
     = Inr (GetResults 3 Ok [7, 8], received (created_db [[1, 2] \<mapsto> [3, 0, 0, 0, 7, 8]]) (CallGet [1, 2]))"
    using lookup_example [of "[1, 2]" 3 "[7, 8]"] by (simp add: le_bytes_def)
  have differ: "[7, 9] \<noteq> [7, 8 :: byte]" by simp
  show ?thesis
    using lookup differ save_mismatch_rejected [OF lookup differ] by blast
qed

section \<open>Deleting\<close>

text \<open>
  C6. On an engine whose calls do not fail, deleting a key behaves as follows. When
  the key has no record the call returns status NotFound and the table is unchanged.
  When a lookup returns a record of the key with a count below 2, the call removes
  the record and returns count 0. Otherwise the call returns the count less 1 (a true
  decrement, without wrap-around), stores the record with that count and the same
  value, and a lookup afterwards returns the value with the new count.
\<close>

theorem delete_behaviour:
  assumes "healthy db"
  shows "(kv db hash_key = None \<longrightarrow>
            (\<exists>db1. deleteStoredValue pf db hash_key = Inr (DeleteResults 0 NotFound, db1)
                   \<and> kv db1 = kv db))
       \<and> (\<forall>count stored db0.
            getStoredValue pf db hash_key = Inr (GetResults count Ok stored, db0) \<longrightarrow>
              (sint count < 2 \<longrightarrow>
                 (\<exists>db1. deleteStoredValue pf db hash_key = Inr (DeleteResults 0 Ok, db1)
                        \<and> kv db1 = (kv db)(hash_key := None)))
            \<and> (2 \<le> sint count \<longrightarrow>
                 (\<exists>db1 db2. deleteStoredValue pf db hash_key = Inr (DeleteResults (count - 1) Ok, db1)
                        \<and> sint (count - 1) = sint count - 1
                        \<and> kv db1 = (kv db)(hash_key \<mapsto> serializeCountAndValue pf (count - 1) stored)
                        \<and> getStoredValue pf db1 hash_key = Inr (GetResults (count - 1) Ok stored, db2))))"
proof (intro conjI allI impI)
  assume "kv db hash_key = None"
  then have "deleteStoredValue pf db hash_key
      = Inr (DeleteResults 0 NotFound, received db (CallGet hash_key))"
    by (rule deleteStoredValue_absent)
  then show "\<exists>db1. deleteStoredValue pf db hash_key = Inr (DeleteResults 0 NotFound, db1)
      \<and> kv db1 = kv db"
    by simp
next
  fix count stored db0
  assume lookup: "getStoredValue pf db hash_key = Inr (GetResults count Ok stored, db0)"
  note faults = healthy_faults [OF assms]
  {
    assume "sint count < 2"
    with lookup have "deleteStoredValue pf db hash_key
        = Inr (DeleteResults 0 Ok, after_delete (received db (CallGet hash_key)) hash_key)"
      using faults(3,4) by (rule deleteStoredValue_last)
    then show "\<exists>db1. deleteStoredValue pf db hash_key = Inr (DeleteResults 0 Ok, db1)
        \<and> kv db1 = (kv db)(hash_key := None)"
      by simp
  }
  {
    assume more: "2 \<le> sint count"
    define db1 where "db1 = after_put (received db (CallGet hash_key)) hash_key
        (serializeCountAndValue pf (count - 1) stored)"
    have del: "deleteStoredValue pf db hash_key = Inr (DeleteResults (count - 1) Ok, db1)"
      unfolding db1_def using lookup more faults(2,4) by (rule deleteStoredValue_decrement)
    have after: "getStoredValue pf db1 hash_key
        = Inr (GetResults (count - 1) Ok stored, received db1 (CallGet hash_key))"
      by (rule getStoredValue_serialized) (simp_all add: db1_def faults)
    have "kv db1 = (kv db)(hash_key \<mapsto> serializeCountAndValue pf (count - 1) stored)"
      by (simp add: db1_def)
    with del after sint_decrement [OF more]
    show "\<exists>db1 db2. deleteStoredValue pf db hash_key = Inr (DeleteResults (count - 1) Ok, db1)
        \<and> sint (count - 1) = sint count - 1
        \<and> kv db1 = (kv db)(hash_key \<mapsto> serializeCountAndValue pf (count - 1) stored)
        \<and> getStoredValue pf db1 hash_key = Inr (GetResults (count - 1) Ok stored, db2)"
      by blast
  }
qed

theorem delete_behaviour_witness:
  "healthy (created_db Map.empty) \<and> kv (created_db Map.empty) [1, 2] = None
   \<and> (\<exists>db1. deleteStoredValue debug_build (created_db Map.empty) [1, 2]
              = Inr (DeleteResults 0 NotFound, db1)
            \<and> kv db1 = kv (created_db Map.empty))
   \<and> healthy (created_db [[1, 2] \<mapsto> [1, 0, 0, 0, 7, 8]])
   \<and> getStoredValue debug_build (created_db [[1, 2] \<mapsto> [1, 0, 0, 0, 7, 8]]) [1, 2]
       = Inr (GetResults 1 Ok [7, 8], received (created_db [[1, 2] \<mapsto> [1, 0, 0, 0, 7, 8]]) (CallGet [1, 2]))
   \<and> sint (1 :: int32) < 2
   \<and> (\<exists>db1. deleteStoredValue debug_build (created_db [[1, 2] \<mapsto> [1, 0, 0, 0, 7, 8]]) [1, 2]
              = Inr (DeleteResults 0 Ok, db1)
            \<and> kv db1 [1, 2] = None)
   \<and> healthy (created_db [[1, 2] \<mapsto> [3, 0, 0, 0, 7, 8]])
   \<and> getStoredValue debug_build (created_db [[1, 2] \<mapsto> [3, 0, 0, 0, 7, 8]]) [1, 2]
       = Inr (GetResults 3 Ok [7, 8], received (created_db [[1, 2] \<mapsto> [3, 0, 0, 0, 7, 8]]) (CallGet [1, 2]))
   \<and> 2 \<le> sint (3 :: int32)
   \<and> (\<exists>db1 db2. deleteStoredValue debug_build (created_db [[1, 2] \<mapsto> [3, 0, 0, 0, 7, 8]]) [1, 2]
              = Inr (DeleteResults 2 Ok, db1)
            \<and> kv db1 [1, 2] = Some [2, 0, 0, 0, 7, 8]
            \<and> getStoredValue debug_build db1 [1, 2] = Inr (GetResults 2 Ok [7, 8], db2))"
proof -
  note h = healthy_created_db
  have absent: "kv (created_db Map.empty) [1, 2] = None"
    by (simp add: created_db_def)
  have one: "sint (1 :: int32) < 2" and three: "2 \<le> sint (3 :: int32)"
    by simp_all
  have lookup1: "getStoredValue debug_build (created_db [[1, 2] \<mapsto> [1, 0, 0, 0, 7, 8]]) [1, 2]
       = Inr (GetResults 1 Ok [7, 8], received (created_db [[1, 2] \<mapsto> [1, 0, 0, 0, 7, 8]]) (CallGet [1, 2]))"
    using lookup_example [of "[1, 2]" 1 "[7, 8]"] by (simp add: le_bytes_def)
  have lookup3: "getStoredValue debug_build (created_db [[1, 2] \<mapsto> [3, 0, 0, 0, 7, 8]]) [1, 2]
       = Inr (GetResults 3 Ok [7, 8], received (created_db [[1, 2] \<mapsto> [3, 0, 0, 0, 7, 8]]) (CallGet [1, 2]))"
    using lookup_example [of "[1, 2]" 3 "[7, 8]"] by (simp add: le_bytes_def)
  note a = delete_behaviour [OF h, of Map.empty "[1, 2]" debug_build,
      THEN conjunct1, rule_format, OF absent]
  note b = delete_behaviour [OF h, of "[[1, 2] \<mapsto> [1, 0, 0, 0, 7, 8]]" "[1, 2]" debug_build,
      THEN conjunct2, rule_format, OF lookup1, THEN conjunct1, rule_format, OF one]
  note c = delete_behaviour [OF h, of "[[1, 2] \<mapsto> [3, 0, 0, 0, 7, 8]]" "[1, 2]" debug_build,
      THEN conjunct2, rule_format, OF lookup3, THEN conjunct2, rule_format, OF three]
  from b have b': "\<exists>db1. deleteStoredValue debug_build (created_db [[1, 2] \<mapsto> [1, 0, 0, 0, 7, 8]]) [1, 2]
              = Inr (DeleteResults 0 Ok, db1) \<and> kv db1 [1, 2] = None"
    by auto
  from c have c': "\<exists>db1 db2. deleteStoredValue debug_build (created_db [[1, 2] \<mapsto> [3, 0, 0, 0, 7, 8]]) [1, 2]
              = Inr (DeleteResults 2 Ok, db1)
            \<and> kv db1 [1, 2] = Some [2, 0, 0, 0, 7, 8]
            \<and> getStoredValue debug_build db1 [1, 2] = Inr (GetResults 2 Ok [7, 8], db2)"
    by (auto simp add: serializeCountAndValue_def memcpy_from_int_def debug_build_def le_bytes_def)
  show ?thesis
    using h absent a lookup1 one b' lookup3 three c' by blast
qed

section \<open>Calls on a key that has no record\<close>

text \<open>
  C7. When the key has no record, incrementing its reference and deleting it each
  return status NotFound (with count 0), whatever the state of the engine. Neither
  writes: the table after the call is the table before it, the key still has no
  record, and a lookup afterwards reports NotFound as it did before.
\<close>

theorem absent_key_not_found:
  assumes "kv db hash_key = None"
  shows "\<exists>db1 db2 db3 db4.
           incrementReference pf db hash_key = Inr (SaveResults 0 NotFound hash_key, db1)
         \<and> kv db1 = kv db \<and> kv db1 hash_key = None
         \<and> getStoredValue pf db1 hash_key = Inr (GetResults 0 NotFound [], db2)
         \<and> deleteStoredValue pf db hash_key = Inr (DeleteResults 0 NotFound, db3)
         \<and> kv db3 = kv db \<and> kv db3 hash_key = None
         \<and> getStoredValue pf db3 hash_key = Inr (GetResults 0 NotFound [], db4)"
proof -
  define db1 where "db1 = received db (CallGet hash_key)"
  have table: "kv db1 = kv db" and still: "kv db1 hash_key = None"
    using assms by (simp_all add: db1_def)
  have "incrementReference pf db hash_key = Inr (SaveResults 0 NotFound hash_key, db1)"
    unfolding db1_def using assms by (rule incrementReference_absent)
  moreover have "deleteStoredValue pf db hash_key = Inr (DeleteResults 0 NotFound, db1)"
    unfolding db1_def using assms by (rule deleteStoredValue_absent)
  moreover have "getStoredValue pf db1 hash_key
      = Inr (GetResults 0 NotFound [], received db1 (CallGet hash_key))"
    using still by (rule getStoredValue_absent)
  ultimately show ?thesis
    using table still by blast
qed

theorem absent_key_not_found_witness:
  "kv (created_db [[5] \<mapsto> [1, 0, 0, 0, 7, 8]]) [1, 2] = None
   \<and> (\<exists>db1 db2 db3 db4.
           incrementReference debug_build (created_db [[5] \<mapsto> [1, 0, 0, 0, 7, 8]]) [1, 2]
             = Inr (SaveResults 0 NotFound [1, 2], db1)
         \<and> kv db1 = kv (created_db [[5] \<mapsto> [1, 0, 0, 0, 7, 8]]) \<and> kv db1 [1, 2] = None
         \<and> getStoredValue debug_build db1 [1, 2] = Inr (GetResults 0 NotFound [], db2)
         \<and> deleteStoredValue debug_build (created_db [[5] \<mapsto> [1, 0, 0, 0, 7, 8]]) [1, 2]
             = Inr (DeleteResults 0 NotFound, db3)
         \<and> kv db3 = kv (created_db [[5] \<mapsto> [1, 0, 0, 0, 7, 8]]) \<and> kv db3 [1, 2] = None
         \<and> getStoredValue debug_build db3 [1, 2] = Inr (GetResults 0 NotFound [], db4))"
proof -
  have absent: "kv (created_db [[5] \<mapsto> [1, 0, 0, 0, 7, 8]]) [1, 2] = None"
    by (simp add: created_db_def)
  show ?thesis
    using absent absent_key_not_found [OF absent, of debug_build] by blast
qed

section \<open>The counts returned with a failure\<close>

text \<open>
  C10. A call that fails still returns a reference count. Saving a value that differs
  from the stored one returns count -1 with InvalidArgument. Deleting, or incrementing
  the reference of, a key that has no record returns count 0 with NotFound. Deleting
  the last reference of a record (count 1, engine not failing) also returns count 0,
  with status Ok and the record removed: the count alone does not tell the two
  deletions apart.
\<close>

theorem failure_sentinel_counts:
  assumes "getStoredValue pf db_m key_m = Inr (GetResults count Ok stored, db0)"
    and "val \<noteq> stored"
    and "kv db_a key_a = None"
    and "healthy db_l"
    and "getStoredValue pf db_l key_l = Inr (GetResults 1 Ok stored_l, db0_l)"
  shows "(\<exists>db1. saveValue pf db_m val key_m = Inr (SaveResults (- 1) InvalidArgument key_m, db1))
       \<and> (\<exists>db1. deleteStoredValue pf db_a key_a = Inr (DeleteResults 0 NotFound, db1))
       \<and> (\<exists>db1. incrementReference pf db_a key_a = Inr (SaveResults 0 NotFound key_a, db1))
       \<and> (\<exists>db1. deleteStoredValue pf db_l key_l = Inr (DeleteResults 0 Ok, db1)
                \<and> kv db1 key_l = None)
       \<and> (\<exists>r_a db_a1 r_l db_l1.
              deleteStoredValue pf db_a key_a = Inr (r_a, db_a1)
            \<and> deleteStoredValue pf db_l key_l = Inr (r_l, db_l1)
            \<and> delete_count_of r_a = delete_count_of r_l
            \<and> delete_status_of r_a \<noteq> delete_status_of r_l)"
proof -
  have mismatch: "saveValue pf db_m val key_m
      = Inr (SaveResults (- 1) InvalidArgument key_m, received db_m (CallGet key_m))"
    using assms(1,2) by (rule saveValue_mismatch)
  have del_absent: "deleteStoredValue pf db_a key_a
      = Inr (DeleteResults 0 NotFound, received db_a (CallGet key_a))"
    using assms(3) by (rule deleteStoredValue_absent)
  have inc_absent: "incrementReference pf db_a key_a
      = Inr (SaveResults 0 NotFound key_a, received db_a (CallGet key_a))"
    using assms(3) by (rule incrementReference_absent)
  have "sint (1 :: int32) < 2" by simp
  with assms(5) have del_last: "deleteStoredValue pf db_l key_l
      = Inr (DeleteResults 0 Ok, after_delete (received db_l (CallGet key_l)) key_l)"
    using healthy_faults(3,4) [OF assms(4)] by (rule deleteStoredValue_last)
  have removed: "kv (after_delete (received db_l (CallGet key_l)) key_l) key_l = None"
    by simp
  have same: "delete_count_of (DeleteResults 0 NotFound) = delete_count_of (DeleteResults 0 Ok)"
    and differ: "delete_status_of (DeleteResults 0 NotFound) \<noteq> delete_status_of (DeleteResults 0 Ok)"
    by simp_all
  show ?thesis
    using mismatch del_absent inc_absent del_last removed same differ by blast
qed

theorem failure_sentinel_counts_witness:
  "getStoredValue debug_build (created_db [[1, 2] \<mapsto> [3, 0, 0, 0, 7, 8]]) [1, 2]
     = Inr (GetResults 3 Ok [7, 8], received (created_db [[1, 2] \<mapsto> [3, 0, 0, 0, 7, 8]]) (CallGet [1, 2]))
   \<and> [7, 9] \<noteq> [7, 8 :: byte]
   \<and> kv (created_db Map.empty) [1, 2] = None
   \<and> healthy (created_db [[1, 2] \<mapsto> [1, 0, 0, 0, 7, 8]])
   \<and> getStoredValue debug_build (created_db [[1, 2] \<mapsto> [1, 0, 0, 0, 7, 8]]) [1, 2]
     = Inr (GetResults 1 Ok [7, 8], received (created_db [[1, 2] \<mapsto> [1, 0, 0, 0, 7, 8]]) (CallGet [1, 2]))
   \<and> (\<exists>db1. saveValue debug_build (created_db [[1, 2] \<mapsto> [3, 0, 0, 0, 7, 8]]) [7, 9] [1, 2]
              = Inr (SaveResults (- 1) InvalidArgument [1, 2], db1))
   \<and> (\<exists>db1. deleteStoredValue debug_build (created_db Map.empty) [1, 2]
              = Inr (DeleteResults 0 NotFound, db1))
   \<and> (\<exists>db1. incrementReference debug_build (created_db Map.empty) [1, 2]
              = Inr (SaveResults 0 NotFound [1, 2], db1))
   \<and> (\<exists>db1. deleteStoredValue debug_build (created_db [[1, 2] \<mapsto> [1, 0, 0, 0, 7, 8]]) [1, 2]
              = Inr (DeleteResults 0 Ok, db1)
            \<and> kv db1 [1, 2] = None)"
proof -
  have lookup3: "getStoredValue debug_build (created_db [[1, 2] \<mapsto> [3, 0, 0, 0, 7, 8]]) [1, 2]
       = Inr (GetResults 3 Ok [7, 8], received (created_db [[1, 2] \<mapsto> [3, 0, 0, 0, 7, 8]]) (CallGet [1, 2]))"
    using lookup_example [of "[1, 2]" 3 "[7, 8]"] by (simp add: le_bytes_def)
  have differ: "[7, 9] \<noteq> [7, 8 :: byte]" by simp
  have absent: "kv (created_db Map.empty) [1, 2] = None"
    by (simp add: created_db_def)
  have lookup1: "getStoredValue debug_build (created_db [[1, 2] \<mapsto> [1, 0, 0, 0, 7, 8]]) [1, 2]
       = Inr (GetResults 1 Ok [7, 8], received (created_db [[1, 2] \<mapsto> [1, 0, 0, 0, 7, 8]]) (CallGet [1, 2]))"
    using lookup_example [of "[1, 2]" 1 "[7, 8]"] by (simp add: le_bytes_def)
  show ?thesis
    using lookup3 differ absent healthy_created_db lookup1
      failure_sentinel_counts [OF lookup3 differ absent healthy_created_db lookup1]
    by blast
qed

section \<open>Failures of the engine\<close>

text \<open>
  C3. The specification has every failure of the engine reach the caller as that same
  failure. Here the engine answers the lookup of a key that has a record (count 3)
  with IOError. \<^verbatim>\<open>getStoredValue\<close> reports NotFound instead, and so do
  \<^verbatim>\<open>incrementReference\<close> and \<^verbatim>\<open>deleteStoredValue\<close>; \<^verbatim>\<open>saveValue\<close> takes the
  key for a new one, returns Ok with count 1 and overwrites the record, so the three
  references are lost. An engine that fails the commit with IOError makes
  \<^verbatim>\<open>saveValueWithRefCount\<close> report NotFound with count 0 when the assertions are
  compiled away, and abort the process when they are not; a Put that the engine
  refuses (Busy) goes unnoticed there, and the save returns Ok with count 1 although
  nothing was written. Only the status of the commit that removes a record is handed
  on as it is.
\<close>

theorem engine_failure_reported_as_not_found:
  "map_sum id fst
     (getStoredValue debug_build ((created_db [[1, 2] \<mapsto> [3, 0, 0, 0, 7, 8]])\<lparr>get_fault := IOError\<rparr>) [1, 2])
     = Inr (GetResults 0 NotFound [])
   \<and> map_sum id fst
     (incrementReference debug_build ((created_db [[1, 2] \<mapsto> [3, 0, 0, 0, 7, 8]])\<lparr>get_fault := IOError\<rparr>) [1, 2])
     = Inr (SaveResults 0 NotFound [1, 2])
   \<and> map_sum id fst
     (deleteStoredValue debug_build ((created_db [[1, 2] \<mapsto> [3, 0, 0, 0, 7, 8]])\<lparr>get_fault := IOError\<rparr>) [1, 2])
     = Inr (DeleteResults 0 NotFound)
   \<and> map_sum id (\<lambda>(r, db1). (r, kv db1 [1, 2]))
     (saveValue debug_build ((created_db [[1, 2] \<mapsto> [3, 0, 0, 0, 7, 8]])\<lparr>get_fault := IOError\<rparr>) [7, 8] [1, 2])
     = Inr (SaveResults 1 Ok [1, 2], Some [1, 0, 0, 0, 7, 8])
   \<and> map_sum id fst
     (saveValueWithRefCount release_build ((created_db Map.empty)\<lparr>commit_fault := IOError\<rparr>) 1 [1, 2] [7, 8])
     = Inr (SaveResults 0 NotFound [1, 2])
   \<and> saveValueWithRefCount debug_build ((created_db Map.empty)\<lparr>commit_fault := IOError\<rparr>) 1 [1, 2] [7, 8]
     = Inl AssertionFailed
   \<and> map_sum id (\<lambda>(r, db1). (r, kv db1 [1, 2]))
     (saveValue release_build ((created_db Map.empty)\<lparr>put_fault := Busy\<rparr>) [7, 8] [1, 2])
     = Inr (SaveResults 1 Ok [1, 2], None)
   \<and> map_sum id fst
     (deleteStoredValue release_build ((created_db [[1, 2] \<mapsto> [1, 0, 0, 0, 7, 8]])\<lparr>commit_fault := IOError\<rparr>) [1, 2])
     = Inr (DeleteResults 0 IOError)"
proof -
  define faulty where "faulty = (created_db [[1, 2] \<mapsto> [3, 0, 0, 0, 7, 8]])\<lparr>get_fault := IOError\<rparr>"
  have fault: "get_fault faulty \<noteq> Ok" and others: "put_fault faulty = Ok" "commit_fault faulty = Ok"
    by (simp_all add: faulty_def created_db_def)
  have lookup: "getStoredValue pf faulty [1, 2]
      = Inr (GetResults 0 NotFound [], received faulty (CallGet [1, 2]))" for pf
    using fault by (rule getStoredValue_fault)
  have "saveValueWithRefCount debug_build (received faulty (CallGet [1, 2])) 1 [1, 2] [7, 8]
      = Inr (SaveResults 1 Ok [1, 2],
             after_put (received faulty (CallGet [1, 2])) [1, 2] (serializeCountAndValue debug_build 1 [7, 8]))"
    by (rule saveValueWithRefCount_ok) (simp_all add: others)
  then have save: "map_sum id (\<lambda>(r, db1). (r, kv db1 [1, 2])) (saveValue debug_build faulty [7, 8] [1, 2])
      = Inr (SaveResults 1 Ok [1, 2], Some [1, 0, 0, 0, 7, 8])"
    by (simp add: saveValue_def lookup ok_def serializeCountAndValue_def memcpy_from_int_def
        debug_build_def le_bytes_def)
  have commit_release: "map_sum id fst
     (saveValueWithRefCount release_build ((created_db Map.empty)\<lparr>commit_fault := IOError\<rparr>) 1 [1, 2] [7, 8])
     = Inr (SaveResults 0 NotFound [1, 2])"
    by (simp add: saveValueWithRefCount_def saveValueToDb_def getTransaction_def
        db_BeginTransaction_def txn_Put_def txn_Commit_def created_db_def release_build_def
        ok_def Let_def)
  have commit_debug:
    "saveValueWithRefCount debug_build ((created_db Map.empty)\<lparr>commit_fault := IOError\<rparr>) 1 [1, 2] [7, 8]
     = Inl AssertionFailed"
    by (simp add: saveValueWithRefCount_def saveValueToDb_def getTransaction_def
        db_BeginTransaction_def txn_Put_def txn_Commit_def created_db_def debug_build_def
        ok_def Let_def)
  have "getStoredValue release_build ((created_db [[1, 2] \<mapsto> [1, 0, 0, 0, 7, 8]])\<lparr>commit_fault := IOError\<rparr>) [1, 2]
      = Inr (GetResults 1 Ok [7, 8],
             received ((created_db [[1, 2] \<mapsto> [1, 0, 0, 0, 7, 8]])\<lparr>commit_fault := IOError\<rparr>) (CallGet [1, 2]))"
    by (rule lookup_little_endian) (simp_all add: created_db_def release_build_def le_bytes_def)
  then have removal: "map_sum id fst
     (deleteStoredValue release_build ((created_db [[1, 2] \<mapsto> [1, 0, 0, 0, 7, 8]])\<lparr>commit_fault := IOError\<rparr>) [1, 2])
     = Inr (DeleteResults 0 IOError)"
    by (simp add: deleteStoredValue_def deleteValueFromDb_def getTransaction_def
        db_BeginTransaction_def txn_Delete_def txn_Commit_def created_db_def release_build_def
        ok_def Let_def)
  have "kv ((created_db Map.empty)\<lparr>put_fault := Busy\<rparr>) [1, 2] = None"
    by (simp add: created_db_def)
  then have "getStoredValue release_build ((created_db Map.empty)\<lparr>put_fault := Busy\<rparr>) [1, 2]
      = Inr (GetResults 0 NotFound [],
             received ((created_db Map.empty)\<lparr>put_fault := Busy\<rparr>) (CallGet [1, 2]))"
    by (rule getStoredValue_absent)
  then have put_release: "map_sum id (\<lambda>(r, db1). (r, kv db1 [1, 2]))
     (saveValue release_build ((created_db Map.empty)\<lparr>put_fault := Busy\<rparr>) [7, 8] [1, 2])
     = Inr (SaveResults 1 Ok [1, 2], None)"
    by (simp add: saveValue_def saveValueWithRefCount_def saveValueToDb_def getTransaction_def
        db_BeginTransaction_def txn_Put_def txn_Commit_def created_db_def release_build_def
        ok_def Let_def)
  show ?thesis
    unfolding faulty_def [symmetric]
    using save commit_release commit_debug put_release removal
    by (simp add: lookup incrementReference_def deleteStoredValue_def ok_def)
qed

section \<open>Closing the store\<close>

lemma dtor_path: "CheckpointStorage_dtor d this (txn_db_path this) = None"
  by (simp add: CheckpointStorage_dtor_def TransactionDB_Close_def DestroyDB_def)

lemma ctor_after_dtor:
  "fst (CheckpointStorage_ctor (CheckpointStorage_dtor d this) (txn_db_path this))
     = \<lparr>txn_db = created_db Map.empty, txn_db_path = txn_db_path this\<rparr>"
  by (simp add: CheckpointStorage_ctor_def TransactionDB_Open_def dtor_path)

text \<open>
  The property as the specification has it, that a record with a count of at least 1
  is still on disk after the store is closed, fails for a store that holds one record
  with count 1.
\<close>

theorem close_keeps_records_counterexample:
  "\<not> (\<forall>d this k entry count val.
        kv (txn_db this) k = Some entry
        \<and> parseCountAndValue debug_build entry = Inr (count, val) \<and> 1 \<le> sint count
        \<longrightarrow> (\<exists>m. CheckpointStorage_dtor d this (txn_db_path this) = Some m \<and> m k = Some entry))"
proof
  assume stated: "\<forall>d this k entry count val.
        kv (txn_db this) k = Some entry
        \<and> parseCountAndValue debug_build entry = Inr (count, val) \<and> 1 \<le> sint count
        \<longrightarrow> (\<exists>m. CheckpointStorage_dtor d this (txn_db_path this) = Some m \<and> m k = Some entry)"
  define this where
    "this = \<lparr>txn_db = created_db [[1, 2] \<mapsto> [1, 0, 0, 0, 7, 8]], txn_db_path = ''checkpoints''\<rparr>"
  have present: "kv (txn_db this) [1, 2] = Some [1, 0, 0, 0, 7, 8]"
    by (simp add: this_def created_db_def)
  have parsed: "parseCountAndValue debug_build [1, 0, 0, 0, 7, 8] = Inr (1, [7, 8])"
    by (simp add: parseCountAndValue_def substr_def memcpy_to_int_def debug_build_def)
  have "1 \<le> sint (1 :: int32)" by simp
  with stated present parsed
  have "\<exists>m. CheckpointStorage_dtor Map.empty this (txn_db_path this) = Some m
      \<and> m [1, 2] = Some [1, 0, 0, 0, 7, 8]"
    by blast
  then show False
    by (simp add: dtor_path)
qed

text \<open>
  C2, amended. Destroying the store object closes the engine handle and then destroys
  the database at the store's path: whatever records it held, with whatever reference
  counts, no database is left at that path. A store constructed on the path afterwards
  opens a newly created, empty database, in which the lookup of any key reports
  NotFound.
\<close>

theorem close_destroys_database:
  "CheckpointStorage_dtor d this (txn_db_path this) = None
   \<and> txn_db (fst (CheckpointStorage_ctor (CheckpointStorage_dtor d this) (txn_db_path this)))
       = created_db Map.empty
   \<and> map_sum id fst
       (getStoredValue pf
          (txn_db (fst (CheckpointStorage_ctor (CheckpointStorage_dtor d this) (txn_db_path this)))) k)
       = Inr (GetResults 0 NotFound [])"
proof -
  have "kv (created_db Map.empty) k = None"
    by (simp add: created_db_def)
  then have "getStoredValue pf (created_db Map.empty) k
      = Inr (GetResults 0 NotFound [], received (created_db Map.empty) (CallGet k))"
    by (rule getStoredValue_absent)
  then show ?thesis
    by (simp add: dtor_path ctor_after_dtor)
qed

section \<open>Lookup and commit as units of work\<close>

lemma calls_during_append: "calls db1 = calls db @ cs \<Longrightarrow> calls_during db db1 = cs"
  by (simp add: calls_during_def)

lemma saveValue_calls:
  assumes "saveValue pf db val k = Inr (r, db1)"
  shows "calls db1 = calls db @ [CallGet k]
       \<or> (\<exists>entry. calls db1 = calls db @ [CallGet k, CallBeginTransaction, CallPut k entry, CallCommit])"
  using assms
  by (auto simp add: saveValue_def split: sum.splits prod.splits if_splits
      dest!: getStoredValue_Inr saveValueWithRefCount_Inr)

lemma incrementReference_calls:
  assumes "incrementReference pf db k = Inr (r, db1)"
  shows "calls db1 = calls db @ [CallGet k]
       \<or> (\<exists>entry. calls db1 = calls db @ [CallGet k, CallBeginTransaction, CallPut k entry, CallCommit])"
  using assms
  by (auto simp add: incrementReference_def Let_def split: sum.splits prod.splits if_splits
      dest!: getStoredValue_Inr saveValueWithRefCount_Inr)

lemma deleteStoredValue_calls:
  assumes "deleteStoredValue pf db k = Inr (r, db1)"
  shows "calls db1 = calls db @ [CallGet k]
       \<or> (\<exists>entry. calls db1 = calls db @ [CallGet k, CallBeginTransaction, CallPut k entry, CallCommit])
       \<or> calls db1 = calls db @ [CallGet k, CallBeginTransaction, CallDelete k, CallCommit]"
  using assms
  by (auto simp add: deleteStoredValue_def Let_def split: sum.splits prod.splits if_splits
      dest!: getStoredValue_Inr saveValueWithRefCount_Inr deleteValueFromDb_Inr)


text \<open>
  The property as the specification has it: whenever a mutating call commits, the calls
  it made on the engine, the lookup included, form one transaction. A first save of
  a key makes the calls Get, BeginTransaction, Put, Commit: the lookup is made on
  the database before the transaction begins.
\<close>

theorem lookup_inside_transaction_counterexample:
  "\<not> (\<forall>pf db op r db1.
        perform pf db op = Inr (r, db1) \<and> CallCommit \<in> set (calls_during db db1)
        \<longrightarrow> inside_one_transaction (calls_during db db1))"
proof
  assume stated: "\<forall>pf db op r db1.
        perform pf db op = Inr (r, db1) \<and> CallCommit \<in> set (calls_during db db1)
        \<longrightarrow> inside_one_transaction (calls_during db db1)"
  define db where "db = created_db Map.empty"
  define entry where "entry = serializeCountAndValue debug_build 1 [7, 8]"
  define db1 where "db1 = after_put (received db (CallGet [1, 2])) [1, 2] entry"
  have "saveValue debug_build db [7, 8] [1, 2] = Inr (SaveResults 1 Ok [1, 2], db1)"
    unfolding db1_def entry_def by (rule saveValue_new) (simp_all add: db_def created_db_def)
  then have run: "perform debug_build db (Save [1, 2] [7, 8]) = Inr ((1, Ok), db1)"
    by simp
  have made: "calls_during db db1
      = [CallGet [1, 2], CallBeginTransaction, CallPut [1, 2] entry, CallCommit]"
    by (rule calls_during_append) (simp add: db1_def)
  then have "CallCommit \<in> set (calls_during db db1)"
    by simp
  with stated run have "inside_one_transaction (calls_during db db1)"
    by blast
  then show False
    by (simp add: made)
qed

text \<open>
  C1, amended. Every mutating call that returns has made exactly one lookup, a Get on
  the database that precedes every other call it makes and belongs to no transaction;
  after it the call has either made no further call, or has run exactly one
  transaction, which begins, takes one put or one delete of the same key, and commits.
  The write is a unit of work of its own; the lookup is not part of it.
\<close>

theorem lookup_precedes_transaction:
  assumes "perform pf db op = Inr (r, db1)"
  shows "(calls_during db db1 = [CallGet (key_of op)]
          \<or> (\<exists>entry. calls_during db db1
                = [CallGet (key_of op), CallBeginTransaction, CallPut (key_of op) entry, CallCommit])
          \<or> calls_during db db1
                = [CallGet (key_of op), CallBeginTransaction, CallDelete (key_of op), CallCommit])
       \<and> hd (calls_during db db1) = CallGet (key_of op)
       \<and> (tl (calls_during db db1) = [] \<or> inside_one_transaction (tl (calls_during db db1)))
       \<and> CallGet (key_of op) \<notin> set (tl (calls_during db db1))"
proof -
  have "calls db1 = calls db @ [CallGet (key_of op)]
      \<or> (\<exists>entry. calls db1
            = calls db @ [CallGet (key_of op), CallBeginTransaction, CallPut (key_of op) entry, CallCommit])
      \<or> calls db1
            = calls db @ [CallGet (key_of op), CallBeginTransaction, CallDelete (key_of op), CallCommit]"
  proof (cases op)
    case (Save k val)
    with assms obtain r1 where "saveValue pf db val k = Inr (r1, db1)"
      by (auto split: sum.splits)
    from saveValue_calls [OF this] show ?thesis
      using Save by auto
  next
    case (IncrementReference k)
    with assms obtain r1 where "incrementReference pf db k = Inr (r1, db1)"
      by (auto split: sum.splits)
    from incrementReference_calls [OF this] show ?thesis
      using IncrementReference by auto
  next
    case (Delete k)
    with assms obtain r1 where "deleteStoredValue pf db k = Inr (r1, db1)"
      by (auto split: sum.splits)
    from deleteStoredValue_calls [OF this] show ?thesis
      using Delete by auto
  qed
  then consider
      "calls_during db db1 = [CallGet (key_of op)]"
    | entry where "calls_during db db1
        = [CallGet (key_of op), CallBeginTransaction, CallPut (key_of op) entry, CallCommit]"
    | "calls_during db db1
        = [CallGet (key_of op), CallBeginTransaction, CallDelete (key_of op), CallCommit]"
    by (auto dest: calls_during_append)
  then show ?thesis
    by cases simp_all
qed

theorem lookup_precedes_transaction_witness:
  "(\<exists>db1. perform debug_build (created_db Map.empty) (Save [1, 2] [7, 8]) = Inr ((1, Ok), db1)
      \<and> calls_during (created_db Map.empty) db1
          = [CallGet [1, 2], CallBeginTransaction, CallPut [1, 2] [1, 0, 0, 0, 7, 8], CallCommit]
      \<and> hd (calls_during (created_db Map.empty) db1) = CallGet [1, 2]
      \<and> inside_one_transaction (tl (calls_during (created_db Map.empty) db1))
      \<and> \<not> inside_one_transaction (calls_during (created_db Map.empty) db1))"
proof -
  define db1 where "db1 = after_put (received (created_db Map.empty) (CallGet [1, 2])) [1, 2]
      (serializeCountAndValue debug_build 1 [7, 8])"
  have "saveValue debug_build (created_db Map.empty) [7, 8] [1, 2] = Inr (SaveResults 1 Ok [1, 2], db1)"
    unfolding db1_def by (rule saveValue_new) (simp_all add: created_db_def)
  then have run: "perform debug_build (created_db Map.empty) (Save [1, 2] [7, 8]) = Inr ((1, Ok), db1)"
    by simp
  have made: "calls_during (created_db Map.empty) db1
      = [CallGet [1, 2], CallBeginTransaction, CallPut [1, 2] [1, 0, 0, 0, 7, 8], CallCommit]"
    by (rule calls_during_append)
      (simp add: db1_def created_db_def serializeCountAndValue_def memcpy_from_int_def
        debug_build_def le_bytes_def)
  from lookup_precedes_transaction [OF run]
  have "hd (calls_during (created_db Map.empty) db1) = CallGet [1, 2]"
    and "tl (calls_during (created_db Map.empty) db1) = []
      \<or> inside_one_transaction (tl (calls_during (created_db Map.empty) db1))"
    by simp_all
  then have "hd (calls_during (created_db Map.empty) db1) = CallGet [1, 2]"
    and "inside_one_transaction (tl (calls_during (created_db Map.empty) db1))"
    by (simp_all add: made)
  moreover have "\<not> inside_one_transaction (calls_during (created_db Map.empty) db1)"
    by (simp add: made)
  ultimately show ?thesis
    using run made by blast
qed

text \<open>
  What the separation allows. Two callers increment the reference of a record whose
  count is 1. The first has made its lookup (it read count 1) when the second runs
  its whole call, which stores count 2; the first then commits what it computed from
  its own lookup, count 2 again. Both calls return 2 and the record ends with count 2:
  one reference is lost. Run one after the other, the two calls end with count 3.
\<close>

lemma interleaved_increment_is_lost:
  "\<exists>first_lookup db_a second db_b first db_c db_d.
      getStoredValue debug_build (created_db [[1, 2] \<mapsto> [1, 0, 0, 0, 7, 8]]) [1, 2]
        = Inr (first_lookup, db_a)
    \<and> incrementReference debug_build db_a [1, 2] = Inr (second, db_b)
    \<and> saveValueWithRefCount debug_build db_b (reference_count_of first_lookup + 1) [1, 2]
          (stored_value_of first_lookup) = Inr (first, db_c)
    \<and> save_count_of second = 2 \<and> save_status_of second = Ok
    \<and> save_count_of first = 2 \<and> save_status_of first = Ok
    \<and> getStoredValue debug_build db_c [1, 2] = Inr (GetResults 2 Ok [7, 8], db_d)"
proof -
  define db where "db = created_db [[1, 2] \<mapsto> [1, 0, 0, 0, 7, 8]]"
  define db_a where "db_a = received db (CallGet [1, 2])"
  define db_b where "db_b = after_put (received db_a (CallGet [1, 2])) [1, 2]
      (serializeCountAndValue debug_build (1 + 1) [7, 8])"
  define db_c where "db_c = after_put db_b [1, 2] (serializeCountAndValue debug_build (1 + 1) [7, 8])"
  have little: "\<not> big_endian debug_build"
    by (simp add: debug_build_def)
  have lookup_a: "getStoredValue debug_build db [1, 2] = Inr (GetResults 1 Ok [7, 8], db_a)"
    unfolding db_a_def using little
    by (rule lookup_little_endian) (simp_all add: db_def created_db_def le_bytes_def)
  have "getStoredValue debug_build db_a [1, 2]
      = Inr (GetResults 1 Ok [7, 8], received db_a (CallGet [1, 2]))"
    using little
    by (rule lookup_little_endian) (simp_all add: db_a_def db_def created_db_def le_bytes_def)
  then have second: "incrementReference debug_build db_a [1, 2] = Inr (SaveResults (1 + 1) Ok [1, 2], db_b)"
    unfolding db_b_def
    by (rule incrementReference_present) (simp_all add: db_a_def db_def created_db_def)
  have first: "saveValueWithRefCount debug_build db_b (1 + 1) [1, 2] [7, 8]
      = Inr (SaveResults (1 + 1) Ok [1, 2], db_c)"
    unfolding db_c_def
    by (rule saveValueWithRefCount_ok) (simp_all add: db_b_def db_a_def db_def created_db_def)
  have final: "getStoredValue debug_build db_c [1, 2]
      = Inr (GetResults (1 + 1) Ok [7, 8], received db_c (CallGet [1, 2]))"
    by (rule getStoredValue_serialized)
      (simp_all add: db_c_def db_b_def db_a_def db_def created_db_def)
  show ?thesis
    unfolding db_def [symmetric]
    using lookup_a second first final
    by (intro exI [of _ "GetResults 1 Ok [7, 8]"] exI [of _ db_a]
        exI [of _ "SaveResults (1 + 1) Ok [1, 2]"] exI [of _ db_b]
        exI [of _ "SaveResults (1 + 1) Ok [1, 2]"] exI [of _ db_c]
        exI [of _ "received db_c (CallGet [1, 2])"]) simp
qed

lemma sequential_increments_count:
  "\<exists>second db_b third db_c db_d.
      incrementReference debug_build (created_db [[1, 2] \<mapsto> [1, 0, 0, 0, 7, 8]]) [1, 2]
        = Inr (second, db_b)
    \<and> incrementReference debug_build db_b [1, 2] = Inr (third, db_c)
    \<and> save_count_of second = 2 \<and> save_count_of third = 3
    \<and> getStoredValue debug_build db_c [1, 2] = Inr (GetResults 3 Ok [7, 8], db_d)"
proof -
  define db where "db = created_db [[1, 2] \<mapsto> [1, 0, 0, 0, 7, 8]]"
  define db_b where "db_b = after_put (received db (CallGet [1, 2])) [1, 2]
      (serializeCountAndValue debug_build (1 + 1) [7, 8])"
  define db_c where "db_c = after_put (received db_b (CallGet [1, 2])) [1, 2]
      (serializeCountAndValue debug_build (1 + 1 + 1) [7, 8])"
  have "getStoredValue debug_build db [1, 2]
      = Inr (GetResults 1 Ok [7, 8], received db (CallGet [1, 2]))"
    using lookup_example [of "[1, 2]" 1 "[7, 8]"] by (simp add: db_def le_bytes_def)
  then have second: "incrementReference debug_build db [1, 2]
      = Inr (SaveResults (1 + 1) Ok [1, 2], db_b)"
    unfolding db_b_def
    by (rule incrementReference_present) (simp_all add: db_def created_db_def)
  have "getStoredValue debug_build db_b [1, 2]
      = Inr (GetResults (1 + 1) Ok [7, 8], received db_b (CallGet [1, 2]))"
    by (rule getStoredValue_serialized) (simp_all add: db_b_def db_def created_db_def)
  then have third: "incrementReference debug_build db_b [1, 2]
      = Inr (SaveResults (1 + 1 + 1) Ok [1, 2], db_c)"
    unfolding db_c_def
    by (rule incrementReference_present) (simp_all add: db_b_def db_def created_db_def)
  have final: "getStoredValue debug_build db_c [1, 2]
      = Inr (GetResults (1 + 1 + 1) Ok [7, 8], received db_c (CallGet [1, 2]))"
    by (rule getStoredValue_serialized)
      (simp_all add: db_c_def db_b_def db_def created_db_def)
  show ?thesis
    unfolding db_def [symmetric]
    using second third final
    by (intro exI [of _ "SaveResults (1 + 1) Ok [1, 2]"] exI [of _ db_b]
        exI [of _ "SaveResults (1 + 1 + 1) Ok [1, 2]"] exI [of _ db_c]
        exI [of _ "received db_c (CallGet [1, 2])"]) simp
qed

section \<open>The reference-count invariant\<close>

lemma sint_increment:
  fixes count :: int32
  assumes "sint count < 2 ^ 31 - 1"
  shows "sint (count + 1) = sint count + 1"
proof -
  have "- (2 ^ 31) \<le> sint count" using sint_ge [of count] by simp
  with assms show ?thesis
    by (simp add: sint_word_ariths signed_take_bit_int_eq_self)
qed

text \<open>What a mutating call that returns has done to the table, whatever the engine's state.\<close>

lemma saveValue_table:
  assumes "saveValue pf db val k = Inr (r, db1)"
  shows "kv db1 = kv db
       \<or> kv db1 = (kv db)(k \<mapsto> serializeCountAndValue pf 1 val)
       \<or> (\<exists>bs c. kv db k = Some bs \<and> parseCountAndValue pf bs = Inr (c, val)
             \<and> kv db1 = (kv db)(k \<mapsto> serializeCountAndValue pf (c + 1) val))"
proof -
  from assms obtain g db0 where lookup: "getStoredValue pf db k = Inr (g, db0)"
    by (cases "getStoredValue pf db k") (auto simp add: saveValue_def)
  from getStoredValue_Inr [OF lookup] have db0: "kv db0 = kv db"
    and found: "status_of g = Ok \<Longrightarrow> \<exists>bs. kv db k = Some bs
        \<and> parseCountAndValue pf bs = Inr (reference_count_of g, stored_value_of g)"
    by auto
  show ?thesis
  proof (cases "status_of g = Ok")
    case False
    with assms lookup have "saveValueWithRefCount pf db0 1 k val = Inr (r, db1)"
      by (simp add: saveValue_def ok_def)
    from saveValueWithRefCount_Inr [OF this] db0 show ?thesis
      by auto
  next
    case True
    show ?thesis
    proof (cases "stored_value_of g = val")
      case False
      with assms lookup True have "db1 = db0"
        by (simp add: saveValue_def ok_def)
      with db0 show ?thesis by simp
    next
      case same: True
      with assms lookup True
      have "saveValueWithRefCount pf db0 (reference_count_of g + 1) k val = Inr (r, db1)"
        by (simp add: saveValue_def ok_def)
      from saveValueWithRefCount_Inr [OF this] db0 found [OF True] same show ?thesis
        by auto
    qed
  qed
qed

lemma incrementReference_table:
  assumes "incrementReference pf db k = Inr (r, db1)"
  shows "kv db1 = kv db
       \<or> (\<exists>bs c v. kv db k = Some bs \<and> parseCountAndValue pf bs = Inr (c, v)
             \<and> kv db1 = (kv db)(k \<mapsto> serializeCountAndValue pf (c + 1) v))"
proof -
  from assms obtain g db0 where lookup: "getStoredValue pf db k = Inr (g, db0)"
    by (cases "getStoredValue pf db k") (auto simp add: incrementReference_def)
  from getStoredValue_Inr [OF lookup] have db0: "kv db0 = kv db"
    and found: "status_of g = Ok \<Longrightarrow> \<exists>bs. kv db k = Some bs
        \<and> parseCountAndValue pf bs = Inr (reference_count_of g, stored_value_of g)"
    by auto
  show ?thesis
  proof (cases "status_of g = Ok")
    case False
    with assms lookup have "db1 = db0"
      by (simp add: incrementReference_def ok_def)
    with db0 show ?thesis by simp
  next
    case True
    with assms lookup
    have "saveValueWithRefCount pf db0 (reference_count_of g + 1) k (stored_value_of g) = Inr (r, db1)"
      by (simp add: incrementReference_def ok_def)
    from saveValueWithRefCount_Inr [OF this] db0 found [OF True] show ?thesis
      by auto
  qed
qed

lemma deleteStoredValue_table:
  assumes "deleteStoredValue pf db k = Inr (r, db1)"
  shows "kv db1 = kv db
       \<or> kv db1 = (kv db)(k := None)
       \<or> (\<exists>bs c v. kv db k = Some bs \<and> parseCountAndValue pf bs = Inr (c, v) \<and> 2 \<le> sint c
             \<and> kv db1 = (kv db)(k \<mapsto> serializeCountAndValue pf (c - 1) v))"
proof -
  from assms obtain g db0 where lookup: "getStoredValue pf db k = Inr (g, db0)"
    by (cases "getStoredValue pf db k") (auto simp add: deleteStoredValue_def)
  from getStoredValue_Inr [OF lookup] have db0: "kv db0 = kv db"
    and found: "status_of g = Ok \<Longrightarrow> \<exists>bs. kv db k = Some bs
        \<and> parseCountAndValue pf bs = Inr (reference_count_of g, stored_value_of g)"
    by auto
  show ?thesis
  proof (cases "status_of g = Ok")
    case False
    with assms lookup have "db1 = db0"
      by (simp add: deleteStoredValue_def ok_def)
    with db0 show ?thesis by simp
  next
    case True
    show ?thesis
    proof (cases "sint (reference_count_of g) < 2")
      case last: True
      with assms lookup True obtain st where "deleteValueFromDb pf db0 k = Inr (st, db1)"
        by (cases "deleteValueFromDb pf db0 k") (auto simp add: deleteStoredValue_def ok_def)
      from deleteValueFromDb_Inr [OF this] db0 show ?thesis
        by auto
    next
      case False
      with assms lookup True obtain u where
        "saveValueWithRefCount pf db0 (reference_count_of g - 1) k (stored_value_of g) = Inr (u, db1)"
        by (cases "saveValueWithRefCount pf db0 (reference_count_of g - 1) k (stored_value_of g)")
          (auto simp add: deleteStoredValue_def ok_def Let_def)
      from saveValueWithRefCount_Inr [OF this] db0 found [OF True] False show ?thesis
        by auto
    qed
  qed
qed

lemma perform_table:
  assumes "perform pf db op = Inr (r, db1)"
  shows "kv db1 = kv db
       \<or> kv db1 = (kv db)(key_of op := None)
       \<or> (\<exists>v. kv db1 = (kv db)(key_of op \<mapsto> serializeCountAndValue pf 1 v))
       \<or> (\<exists>bs c v. kv db (key_of op) = Some bs \<and> parseCountAndValue pf bs = Inr (c, v)
             \<and> kv db1 = (kv db)(key_of op \<mapsto> serializeCountAndValue pf (c + 1) v))
       \<or> (\<exists>bs c v. kv db (key_of op) = Some bs \<and> parseCountAndValue pf bs = Inr (c, v)
             \<and> 2 \<le> sint c
             \<and> kv db1 = (kv db)(key_of op \<mapsto> serializeCountAndValue pf (c - 1) v))"
proof (cases op)
  case (Save k val)
  with assms obtain r1 where "saveValue pf db val k = Inr (r1, db1)"
    by (auto split: sum.splits)
  from saveValue_table [OF this] show ?thesis
    using Save by auto
next
  case (IncrementReference k)
  with assms obtain r1 where "incrementReference pf db k = Inr (r1, db1)"
    by (auto split: sum.splits)
  from incrementReference_table [OF this] show ?thesis
    using IncrementReference by auto
next
  case (Delete k)
  with assms obtain r1 where "deleteStoredValue pf db k = Inr (r1, db1)"
    by (auto split: sum.splits)
  from deleteStoredValue_table [OF this] show ?thesis
    using Delete by auto
qed

lemma counts_withinD:
  assumes "counts_within pf n db" and "kv db k = Some bs"
  shows "\<exists>c v. parseCountAndValue pf bs = Inr (c, v) \<and> 1 \<le> sint c \<and> sint c \<le> n"
proof -
  from assms(1) have "case kv db k of None \<Rightarrow> True
      | Some bs \<Rightarrow> (case parseCountAndValue pf bs of Inl e \<Rightarrow> False
                    | Inr (count, val) \<Rightarrow> 1 \<le> sint count \<and> sint count \<le> n)"
    unfolding counts_within_def by blast
  with assms(2) show ?thesis
    by (auto split: sum.splits)
qed

lemma counts_within_mono:
  assumes "counts_within pf n db" and "n \<le> m" and "kv db1 = kv db"
  shows "counts_within pf m db1"
  unfolding counts_within_def
proof
  fix k
  show "case kv db1 k of None \<Rightarrow> True
      | Some bs \<Rightarrow> (case parseCountAndValue pf bs of Inl e \<Rightarrow> False
                    | Inr (count, val) \<Rightarrow> 1 \<le> sint count \<and> sint count \<le> m)"
  proof (cases "kv db k")
    case None
    then show ?thesis by (simp add: assms(3))
  next
    case (Some bs)
    from counts_withinD [OF assms(1) Some] assms(2) Some show ?thesis
      by (auto simp add: assms(3))
  qed
qed

lemma counts_within_remove:
  assumes "counts_within pf n db" and "n \<le> m" and "kv db1 = (kv db)(k0 := None)"
  shows "counts_within pf m db1"
  unfolding counts_within_def
proof
  fix k
  show "case kv db1 k of None \<Rightarrow> True
      | Some bs \<Rightarrow> (case parseCountAndValue pf bs of Inl e \<Rightarrow> False
                    | Inr (count, val) \<Rightarrow> 1 \<le> sint count \<and> sint count \<le> m)"
  proof (cases "k = k0 \<or> kv db k = None")
    case True
    then show ?thesis by (auto simp add: assms(3))
  next
    case False
    then obtain bs where Some: "kv db k = Some bs" and "k \<noteq> k0" by auto
    from counts_withinD [OF assms(1) Some] assms(2) Some \<open>k \<noteq> k0\<close> show ?thesis
      by (auto simp add: assms(3))
  qed
qed

lemma counts_within_store:
  assumes "counts_within pf n db" and "n \<le> m"
    and "kv db1 = (kv db)(k0 \<mapsto> serializeCountAndValue pf c v)"
    and "1 \<le> sint c" and "sint c \<le> m"
  shows "counts_within pf m db1"
  unfolding counts_within_def
proof
  fix k
  show "case kv db1 k of None \<Rightarrow> True
      | Some bs \<Rightarrow> (case parseCountAndValue pf bs of Inl e \<Rightarrow> False
                    | Inr (count, val) \<Rightarrow> 1 \<le> sint count \<and> sint count \<le> m)"
  proof (cases "k = k0")
    case True
    then show ?thesis
      using assms(4,5) by (simp add: assms(3) parse_serialize)
  next
    case False
    show ?thesis
    proof (cases "kv db k")
      case None
      then show ?thesis using False by (simp add: assms(3))
    next
      case (Some bs)
      from counts_withinD [OF assms(1) Some] assms(2) Some False show ?thesis
        by (auto simp add: assms(3))
    qed
  qed
qed

lemma perform_counts_within:
  assumes "counts_within pf n db" and "0 \<le> n" and "n < 2 ^ 31 - 1"
    and "perform pf db op = Inr (r, db1)"
  shows "counts_within pf (n + 1) db1"
proof -
  from perform_table [OF assms(4)] consider
      "kv db1 = kv db"
    | "kv db1 = (kv db)(key_of op := None)"
    | v where "kv db1 = (kv db)(key_of op \<mapsto> serializeCountAndValue pf 1 v)"
    | bs c v where "kv db (key_of op) = Some bs" "parseCountAndValue pf bs = Inr (c, v)"
        "kv db1 = (kv db)(key_of op \<mapsto> serializeCountAndValue pf (c + 1) v)"
    | bs c v where "kv db (key_of op) = Some bs" "parseCountAndValue pf bs = Inr (c, v)"
        "2 \<le> sint c" "kv db1 = (kv db)(key_of op \<mapsto> serializeCountAndValue pf (c - 1) v)"
    by blast
  then show ?thesis
  proof cases
    case 1
    with assms(1) show ?thesis by (auto intro: counts_within_mono [of pf n db])
  next
    case 2
    with assms(1) show ?thesis by (auto intro: counts_within_remove [of pf n db "n + 1" db1 "key_of op"])
  next
    case 3
    with assms(1,2) show ?thesis by (auto intro: counts_within_store [of pf n db "n + 1" db1 "key_of op" 1 v])
  next
    case 4
    from counts_withinD [OF assms(1) 4(1)] 4(2) have c: "1 \<le> sint c" "sint c \<le> n"
      by simp_all
    with assms(3) have "sint (c + 1) = sint c + 1"
      by (auto intro: sint_increment)
    with c 4(3) assms(1) show ?thesis
      by (auto intro: counts_within_store [of pf n db "n + 1" db1 "key_of op" "c + 1" v])
  next
    case 5
    from counts_withinD [OF assms(1) 5(1)] 5(2) have c: "1 \<le> sint c" "sint c \<le> n"
      by simp_all
    have "sint (c - 1) = sint c - 1"
      using 5(3) by (rule sint_decrement)
    with c 5(3,4) assms(1) show ?thesis
      by (auto intro: counts_within_store [of pf n db "n + 1" db1 "key_of op" "c - 1" v])
  qed
qed

lemma run_counts_within:
  assumes "run pf db ops = Inr db1" and "counts_within pf n db" and "0 \<le> n"
    and "n + int (length ops) < 2 ^ 31"
  shows "counts_within pf (n + int (length ops)) db1"
  using assms
proof (induction ops arbitrary: db n)
  case Nil
  then show ?case by simp
next
  case (Cons op ops)
  from Cons.prems(1) obtain r db2 where step: "perform pf db op = Inr (r, db2)"
    and rest: "run pf db2 ops = Inr db1"
    by (auto split: sum.splits)
  from Cons.prems(4) have bound: "n < 2 ^ 31 - 1" by simp
  from Cons.prems(2,3) bound step have "counts_within pf (n + 1) db2"
    by (rule perform_counts_within)
  with rest have "counts_within pf (n + 1 + int (length ops)) db1"
    using Cons.prems(3,4) by (auto intro: Cons.IH)
  then show ?case by (simp add: add.assoc)
qed

lemma counts_within_invariant:
  "counts_within pf n db \<Longrightarrow> refcount_invariant pf db"
  unfolding refcount_invariant_def record_ok_def
  by (auto dest: counts_withinD split: option.splits sum.splits)

text \<open>The calls on an engine that does not fail, as steps of a run.\<close>

lemma healthy_after_put [simp]: "healthy (after_put db k e) = healthy db"
  and healthy_after_delete [simp]: "healthy (after_delete db k) = healthy db"
  and healthy_received [simp]: "healthy (received db c) = healthy db"
  by (simp_all add: healthy_def)

lemma perform_save_new:
  assumes "healthy db" and "kv db k = None"
  shows "\<exists>db1. perform pf db (Save k v) = Inr ((1, Ok), db1) \<and> healthy db1
           \<and> kv db1 = (kv db)(k \<mapsto> serializeCountAndValue pf 1 v)"
  using saveValue_new [OF assms(2) healthy_faults(2,4) [OF assms(1)], of pf v] assms(1)
  by simp

lemma perform_save_again:
  assumes "healthy db" and "kv db k = Some (serializeCountAndValue pf c v)"
  shows "\<exists>db1. perform pf db (Save k v) = Inr ((c + 1, Ok), db1) \<and> healthy db1
           \<and> kv db1 = (kv db)(k \<mapsto> serializeCountAndValue pf (c + 1) v)"
proof -
  note faults = healthy_faults [OF assms(1)]
  have "getStoredValue pf db k = Inr (GetResults c Ok v, received db (CallGet k))"
    using faults(1) assms(2) by (rule getStoredValue_serialized)
  from saveValue_same [OF this faults(2,4)] assms(1) show ?thesis
    by simp
qed

lemma perform_increment:
  assumes "healthy db" and "kv db k = Some (serializeCountAndValue pf c v)"
  shows "\<exists>db1. perform pf db (IncrementReference k) = Inr ((c + 1, Ok), db1) \<and> healthy db1
           \<and> kv db1 = (kv db)(k \<mapsto> serializeCountAndValue pf (c + 1) v)"
proof -
  note faults = healthy_faults [OF assms(1)]
  have "getStoredValue pf db k = Inr (GetResults c Ok v, received db (CallGet k))"
    using faults(1) assms(2) by (rule getStoredValue_serialized)
  from incrementReference_present [OF this faults(2,4)] assms(1) show ?thesis
    by simp
qed

lemma perform_delete_decrement:
  assumes "healthy db" and "kv db k = Some (serializeCountAndValue pf c v)" and "2 \<le> sint c"
  shows "\<exists>db1. perform pf db (Delete k) = Inr ((c - 1, Ok), db1) \<and> healthy db1
           \<and> kv db1 = (kv db)(k \<mapsto> serializeCountAndValue pf (c - 1) v)"
proof -
  note faults = healthy_faults [OF assms(1)]
  have "getStoredValue pf db k = Inr (GetResults c Ok v, received db (CallGet k))"
    using faults(1) assms(2) by (rule getStoredValue_serialized)
  from deleteStoredValue_decrement [OF this assms(3) faults(2,4)] assms(1) show ?thesis
    by simp
qed

lemma perform_delete_last:
  assumes "healthy db" and "kv db k = Some (serializeCountAndValue pf c v)" and "sint c < 2"
  shows "\<exists>db1. perform pf db (Delete k) = Inr ((0, Ok), db1) \<and> healthy db1
           \<and> kv db1 = (kv db)(k := None)"
proof -
  note faults = healthy_faults [OF assms(1)]
  have "getStoredValue pf db k = Inr (GetResults c Ok v, received db (CallGet k))"
    using faults(1) assms(2) by (rule getStoredValue_serialized)
  from deleteStoredValue_last [OF this assms(3) faults(3,4)] assms(1) show ?thesis
    by simp
qed

lemma run_saves_again:
  assumes "healthy db" and "kv db k = Some (serializeCountAndValue pf c v)"
  shows "\<exists>db1. run pf db (replicate n (Save k v)) = Inr db1 \<and> healthy db1
           \<and> kv db1 k = Some (serializeCountAndValue pf (c + of_nat n) v)"
  using assms
proof (induction n arbitrary: db c)
  case 0
  then show ?case by simp
next
  case (Suc n)
  from perform_save_again [OF Suc.prems] obtain db2 where
    step: "perform pf db (Save k v) = Inr ((c + 1, Ok), db2)" and h: "healthy db2"
    and table: "kv db2 = (kv db)(k \<mapsto> serializeCountAndValue pf (c + 1) v)"
    by blast
  from table have "kv db2 k = Some (serializeCountAndValue pf (c + 1) v)"
    by simp
  from Suc.IH [OF h this] obtain db1 where
    "run pf db2 (replicate n (Save k v)) = Inr db1" and "healthy db1"
    and "kv db1 k = Some (serializeCountAndValue pf (c + 1 + of_nat n) v)"
    by blast
  with step show ?case
    by (simp add: add.assoc)
qed

lemma run_saves_new:
  assumes "healthy db" and "kv db k = None"
  shows "\<exists>db1. run pf db (replicate (Suc n) (Save k v)) = Inr db1
           \<and> kv db1 k = Some (serializeCountAndValue pf (of_nat (Suc n)) v)"
proof -
  from perform_save_new [OF assms] obtain db2 where
    step: "perform pf db (Save k v) = Inr ((1, Ok), db2)" and h: "healthy db2"
    and table: "kv db2 = (kv db)(k \<mapsto> serializeCountAndValue pf 1 v)"
    by blast
  from table have "kv db2 k = Some (serializeCountAndValue pf 1 v)"
    by simp
  from run_saves_again [OF h this, of n] obtain db1 where
    "run pf db2 (replicate n (Save k v)) = Inr db1"
    and "kv db1 k = Some (serializeCountAndValue pf (1 + of_nat n) v)"
    by blast
  with step show ?thesis
    by simp
qed

text \<open>
  The invariant as the specification has it, for every sequence of calls on a newly
  created store, fails after 2147483648 saves of one value under one key: the count
  of the 32-bit record has wrapped around to -2147483648, and the record is there.
\<close>

theorem refcount_invariant_counterexample:
  "\<not> (\<forall>pf ops db1. run pf (created_db Map.empty) ops = Inr db1 \<longrightarrow> refcount_invariant pf db1)"
proof
  assume stated: "\<forall>pf ops db1. run pf (created_db Map.empty) ops = Inr db1
      \<longrightarrow> refcount_invariant pf db1"
  have "kv (created_db Map.empty) [1, 2] = None"
    by (simp add: created_db_def)
  from run_saves_new [OF healthy_created_db this, of debug_build 2147483647 "[7, 8]"]
  obtain db1 where
    run: "run debug_build (created_db Map.empty) (replicate (Suc 2147483647) (Save [1, 2] [7, 8])) = Inr db1"
    and entry: "kv db1 [1, 2] = Some (serializeCountAndValue debug_build (of_nat (Suc 2147483647)) [7, 8])"
    by blast
  from stated run have "refcount_invariant debug_build db1"
    by blast
  then have "record_ok debug_build (kv db1 [1, 2])"
    unfolding refcount_invariant_def by blast
  then have "1 \<le> sint (of_nat (Suc 2147483647) :: int32)"
    by (simp add: entry record_ok_def parse_serialize)
  moreover have "sint (of_nat (Suc 2147483647) :: int32) = - 2147483648"
    by simp
  ultimately show False
    by simp
qed

text \<open>
  C9, amended. After any sequence of fewer than 2147483648 (2 to the 31) Save,
  IncrementReference and Delete calls on a store that was empty, whatever the state
  of the engine, every record that is present parses and has a reference count of at
  least 1.
\<close>

theorem refcount_invariant_bounded_run:
  assumes "kv db = Map.empty" and "length ops < 2 ^ 31" and "run pf db ops = Inr db1"
  shows "refcount_invariant pf db1"
proof -
  have start: "counts_within pf 0 db"
    by (simp add: counts_within_def assms(1))
  from assms(2) have "int (length ops) < 2 ^ 31"
    by (metis of_nat_less_iff of_nat_numeral of_nat_power)
  then have "0 + int (length ops) < 2 ^ 31"
    by simp
  with assms(3) start have "counts_within pf (0 + int (length ops)) db1"
    by (rule run_counts_within [where n = 0, OF _ _ order_refl])
  then show ?thesis
    by (rule counts_within_invariant)
qed


theorem refcount_invariant_bounded_run_witness:
  "kv (created_db Map.empty) = Map.empty
   \<and> length [Save [1, 2] [7, 8], IncrementReference [1, 2], Delete [1, 2]] < 2 ^ 31
   \<and> (\<exists>db1. run debug_build (created_db Map.empty)
                [Save [1, 2] [7, 8], IncrementReference [1, 2], Delete [1, 2]] = Inr db1
            \<and> kv db1 [1, 2] = Some [1, 0, 0, 0, 7, 8]
            \<and> refcount_invariant debug_build db1)"
proof -
  have empty: "kv (created_db Map.empty) = Map.empty"
    by (simp add: created_db_def)
  have short: "length [Save [1, 2] [7, 8], IncrementReference [1, 2], Delete [1, 2]] < 2 ^ 31"
    by simp
  from empty have "kv (created_db Map.empty) [1, 2] = None"
    by simp
  from perform_save_new [OF healthy_created_db this, of debug_build "[7, 8]"] obtain db_a where
    a: "perform debug_build (created_db Map.empty) (Save [1, 2] [7, 8]) = Inr ((1, Ok), db_a)"
    and ha: "healthy db_a"
    and ta: "kv db_a [1, 2] = Some (serializeCountAndValue debug_build 1 [7, 8])"
    by auto
  from perform_increment [OF ha ta] obtain db_b where
    b: "perform debug_build db_a (IncrementReference [1, 2]) = Inr ((1 + 1, Ok), db_b)"
    and hb: "healthy db_b"
    and tb: "kv db_b [1, 2] = Some (serializeCountAndValue debug_build (1 + 1) [7, 8])"
    by auto
  have "2 \<le> sint (1 + 1 :: int32)"
    by simp
  from perform_delete_decrement [OF hb tb this] obtain db_c where
    c: "perform debug_build db_b (Delete [1, 2]) = Inr ((1 + 1 - 1, Ok), db_c)"
    and tc: "kv db_c [1, 2] = Some (serializeCountAndValue debug_build (1 + 1 - 1) [7, 8])"
    by auto
  have run: "run debug_build (created_db Map.empty)
      [Save [1, 2] [7, 8], IncrementReference [1, 2], Delete [1, 2]] = Inr db_c"
    using a b c by simp
  have "kv db_c [1, 2] = Some [1, 0, 0, 0, 7, 8]"
    using tc by (simp add: serializeCountAndValue_def memcpy_from_int_def debug_build_def le_bytes_def)
  with run refcount_invariant_bounded_run [OF empty short run] empty short show ?thesis
    by blast
qed

end
